theory Spec2Isabelle
  imports Complex_Main "HOL-Library.AList"
begin

section \<open>The base widget of flexx/ui/\_widget.py\<close>

text \<open>
  The class body of \<^verbatim>\<open>Widget\<close> is PyScript: it is written in Python and runs against
  the browser's document. A virtual node is a dict read by attribute
  (\<^verbatim>\<open>vnode.type\<close>), the argument tuple of \<^verbatim>\<open>create_element\<close> is an array that passes
  \<^verbatim>\<open>isinstance(x, list)\<close>, and real nodes are objects of the document. The document
  itself is not part of the repository; the part of it the widget calls is modelled
  below as a store of nodes.
\<close>

subsection \<open>Errors\<close>

datatype error =
    TypeError
  | ValueError
  | AttributeError
  | KeyError
  | IndexError
  | AssertionError
  | NotFoundError

subsection \<open>Strings\<close>

text \<open>\<^verbatim>\<open>str.lower()\<close> and the upper-casing of HTML tag names, on ASCII letters.\<close>

definition lower_char :: "char \<Rightarrow> char" where
  "lower_char c =
     (case map_of (zip ''ABCDEFGHIJKLMNOPQRSTUVWXYZ'' ''abcdefghijklmnopqrstuvwxyz'') c of
        Some d \<Rightarrow> d
      | None \<Rightarrow> c)"

definition upper_char :: "char \<Rightarrow> char" where
  "upper_char c =
     (case map_of (zip ''abcdefghijklmnopqrstuvwxyz'' ''ABCDEFGHIJKLMNOPQRSTUVWXYZ'') c of
        Some d \<Rightarrow> d
      | None \<Rightarrow> c)"

definition lower :: "string \<Rightarrow> string" where
  "lower s = map lower_char s"

definition upper :: "string \<Rightarrow> string" where
  "upper s = map upper_char s"

text \<open>\<^verbatim>\<open>key.replace('__', '.')\<close>: occurrences are replaced from the left, without overlap.\<close>

fun replace_dunder :: "string \<Rightarrow> string" where
  "replace_dunder (c1 # c2 # cs) =
     (if c1 = CHR ''_'' \<and> c2 = CHR ''_'' then CHR ''.'' # replace_dunder cs
      else c1 # replace_dunder (c2 # cs))"
| "replace_dunder cs = cs"

text \<open>\<^verbatim>\<open>s.split('.')\<close>: the result always has at least one segment.\<close>

fun split_dot :: "string \<Rightarrow> string list" where
  "split_dot [] = [[]]"
| "split_dot (c # cs) =
     (if c = CHR ''.'' then [] # split_dot cs
      else (case split_dot cs of
              [] \<Rightarrow> [[c]]
            | p # ps \<Rightarrow> (c # p) # ps))"

text \<open>\<^verbatim>\<open>parts = key.replace('__', '.').split('.')\<close>\<close>

definition key_parts :: "string \<Rightarrow> string list" where
  "key_parts key = split_dot (replace_dunder key)"

subsection \<open>Real nodes\<close>

text \<open>
  A real node is a reference into the document, a list of nodes indexed by reference.
  A node has its tag (\<^verbatim>\<open>nodeName\<close>, which no code of the widget writes), its element
  children, and an object of writable properties (\<^verbatim>\<open>className\<close>, \<^verbatim>\<open>innerHTML\<close>,
  \<^verbatim>\<open>style\<close> and its members, and so on). Property values are strings, numbers or nested
  objects.

  Assigning \<^verbatim>\<open>innerHTML\<close> replaces the children of the node by the elements of the markup
  that is assigned. The browser's parser is not part of the repository, so it is a
  parameter of the model: the function that gives, for the tag of the node and a
  markup, the elements the markup holds at its top, each with its tag, its attributes and
  its own elements.
\<close>

type_synonym ref = nat

datatype jsval =
    JStr string
  | JNum int
  | JObj "(string \<times> jsval) list"

record dom_node =
  nodeName :: string
  attrs :: "(string \<times> jsval) list"
  children :: "ref list"

type_synonym dom = "dom_node list"

datatype html = Element string "(string \<times> jsval) list" "html list"

type_synonym parser = "string \<Rightarrow> string \<Rightarrow> html list"

fun root_tag :: "html \<Rightarrow> string" where
  "root_tag (Element t a hs) = t"

text \<open>\<^verbatim>\<open>window.document.createElement(type)\<close>: a new node, with the tag in upper case as
  HTML documents report it, no property set and no child.\<close>

definition createElement :: "string \<Rightarrow> dom \<Rightarrow> ref \<times> dom" where
  "createElement ty s =
     (length s, s @ [\<lparr>nodeName = upper ty, attrs = [], children = []\<rparr>])"

text \<open>The nodes of parsed elements: each element becomes a new node, after the nodes of
  its own elements.\<close>

fun alloc :: "html \<Rightarrow> dom \<Rightarrow> ref \<times> dom"
  and alloc_list :: "html list \<Rightarrow> dom \<Rightarrow> ref list \<times> dom"
where
  "alloc (Element t a hs) s =
     (case alloc_list hs s of
        (rs, s1) \<Rightarrow> (length s1, s1 @ [\<lparr>nodeName = t, attrs = a, children = rs\<rparr>]))"
| "alloc_list [] s = ([], s)"
| "alloc_list (h # hs) s =
     (case alloc h s of
        (r, s1) \<Rightarrow> (case alloc_list hs s1 of (rs, s2) \<Rightarrow> (r # rs, s2)))"

text \<open>A node that is inserted somewhere leaves the child list it was in.\<close>

definition detach :: "ref \<Rightarrow> dom \<Rightarrow> dom" where
  "detach c s = map (\<lambda>n. n\<lparr>children := removeAll c (children n)\<rparr>) s"

definition appendChild :: "ref \<Rightarrow> ref \<Rightarrow> dom \<Rightarrow> dom" where
  "appendChild p c s =
     (let s1 = detach c s in s1[p := (s1 ! p)\<lparr>children := children (s1 ! p) @ [c]\<rparr>])"

definition insertBefore :: "ref \<Rightarrow> ref \<Rightarrow> ref \<Rightarrow> dom \<Rightarrow> error + dom" where
  "insertBefore p new old s =
     (if old \<notin> set (children (s ! p)) then Inl NotFoundError
      else
        (let s1 = detach new s; cs = children (s1 ! p)
         in Inr (s1[p := (s1 ! p)\<lparr>children :=
                   takeWhile (\<lambda>x. x \<noteq> old) cs @ new # dropWhile (\<lambda>x. x \<noteq> old) cs\<rparr>])))"

definition removeChild :: "ref \<Rightarrow> ref \<Rightarrow> dom \<Rightarrow> error + dom" where
  "removeChild p c s =
     (if c \<notin> set (children (s ! p)) then Inl NotFoundError
      else Inr (s[p := (s ! p)\<lparr>children := remove1 c (children (s ! p))\<rparr>]))"

text \<open>The children of a node are replaced: the old ones are no longer its children.\<close>

definition set_children :: "ref \<Rightarrow> ref list \<Rightarrow> dom \<Rightarrow> dom" where
  "set_children n rs s = s[n := (s ! n)\<lparr>children := rs\<rparr>]"

text \<open>The content of a node is replaced by a value: a string is parsed as markup, and its
  elements become the children; any other value is shown as text, which has no
  element.\<close>

definition replace_content :: "parser \<Rightarrow> ref \<Rightarrow> jsval \<Rightarrow> dom \<Rightarrow> dom" where
  "replace_content P n val s =
     (case val of
        JStr x \<Rightarrow>
          (case alloc_list (P (nodeName (s ! n)) x) s of (rs, s1) \<Rightarrow> set_children n rs s1)
      | _ \<Rightarrow> set_children n [] s)"

text \<open>
  \<^verbatim>\<open>node[key] = val\<close> on a real node. The value is kept as the property. The setter of
  \<^verbatim>\<open>innerHTML\<close> replaces the content by the parsed value, those of \<^verbatim>\<open>textContent\<close> and
  \<^verbatim>\<open>innerText\<close> replace it by a text. (The setters of \<^verbatim>\<open>outerHTML\<close> and \<^verbatim>\<open>outerText\<close>,
  which replace the node itself in its parent, and of \<^verbatim>\<open>text\<close>, which some elements
  have, are not followed; the properties below that speak of props leave these keys
  out.)
\<close>

definition node_assign :: "parser \<Rightarrow> string \<Rightarrow> jsval \<Rightarrow> ref \<Rightarrow> dom \<Rightarrow> dom" where
  "node_assign P k val n s =
     (let s1 = s[n := (s ! n)\<lparr>attrs := AList.update k val (attrs (s ! n))\<rparr>]
      in if k = ''innerHTML'' then replace_content P n val s1
         else if k = ''textContent'' \<or> k = ''innerText'' then set_children n [] s1
         else s1)"

text \<open>\<^verbatim>\<open>node.innerHTML = text\<close>\<close>

definition set_innerHTML :: "parser \<Rightarrow> ref \<Rightarrow> string \<Rightarrow> dom \<Rightarrow> dom" where
  "set_innerHTML P n x s = node_assign P ''innerHTML'' (JStr x) n s"

subsection \<open>Virtual nodes\<close>

text \<open>
  What \<^verbatim>\<open>__render_resolve\<close> may be handed: a real node, a string, a dict with the fields
  \<^verbatim>\<open>type\<close>, \<^verbatim>\<open>props\<close> and \<^verbatim>\<open>children\<close>, or any other value. The three fields of a dict
  are not checked when the dict is built, so each of them has a case for a value of the
  wrong type. For \<^verbatim>\<open>props\<close> the values that are not a dict are of two kinds, since
  \<^verbatim>\<open>create_element\<close> tests the truth of its argument: \<open>PFalsy\<close> is \<^verbatim>\<open>None\<close> or another
  false value (\<^verbatim>\<open>0\<close>, \<^verbatim>\<open>''\<close>, \<^verbatim>\<open>False\<close>), \<open>POther\<close> is any other value.
\<close>

datatype vtype = TStr string | TOther

datatype vprops = PDict "(string \<times> jsval) list" | PFalsy | POther

datatype vnode =
    VReal ref
  | VStr string
  | VDict vtype vprops vchildren
  | VOther
and vchildren =
    CNone
  | CStr string
  | CList "vnode list"
  | COther

text \<open>The child arguments of \<^verbatim>\<open>create_element(type, props=None, *children)\<close>: a string, a
  list, or any other value, which is taken as a node. A list among several children is
  no virtual node.\<close>

datatype child_arg = AStr string | AList "vnode list" | ANode vnode

fun child_vnode :: "child_arg \<Rightarrow> vnode" where
  "child_vnode (AStr x) = VStr x"
| "child_vnode (ANode v) = v"
| "child_vnode (AList vs) = VOther"

text \<open>\<^verbatim>\<open>props or {}\<close> is the empty dict for \<^verbatim>\<open>None\<close>, for the empty dict and for every
  other false value.\<close>

definition create_element :: "vtype \<Rightarrow> vprops \<Rightarrow> child_arg list \<Rightarrow> vnode" where
  "create_element ty props cs =
     VDict ty
       (case props of
          PDict kvs \<Rightarrow> PDict kvs
        | PFalsy \<Rightarrow> PDict []
        | POther \<Rightarrow> POther)
       (case cs of
          [] \<Rightarrow> CNone
        | [AStr x] \<Rightarrow> CStr x
        | [AList vs] \<Rightarrow> CList vs
        | _ \<Rightarrow> CList (map child_vnode cs))"

subsection \<open>The reconciler\<close>

text \<open>\<^verbatim>\<open>map.get(key, key)\<close> with
  \<^verbatim>\<open>map = {'css_class': 'className', 'class': 'className'}\<close>\<close>

definition rename_key :: "string \<Rightarrow> string" where
  "rename_key k = (if k = ''css_class'' \<or> k = ''class'' then ''className'' else k)"

text \<open>
  The inner loop over \<^verbatim>\<open>parts\<close>, inside an object that is a property of the node (as
  \<^verbatim>\<open>style\<close> is): all segments but the last are read as members, the last one is assigned
  under its renamed key. Reading a member that is missing, or a member of a value that is
  not an object, fails. (Members of the node that are nodes again, as \<^verbatim>\<open>parentNode\<close>, are
  not among the properties of the model.)
\<close>

fun assign_path :: "string list \<Rightarrow> jsval \<Rightarrow> (string \<times> jsval) list \<Rightarrow> error + (string \<times> jsval) list" where
  "assign_path [] v ob = Inr ob"
| "assign_path [k] v ob = Inr (AList.update (rename_key k) v ob)"
| "assign_path (k # k' # ks) v ob =
     (case map_of ob k of
        None \<Rightarrow> Inl KeyError
      | Some (JObj sub) \<Rightarrow>
          (case assign_path (k' # ks) v sub of
             Inl e \<Rightarrow> Inl e
           | Inr sub' \<Rightarrow> Inr (AList.update k (JObj sub') ob))
      | Some _ \<Rightarrow> Inl TypeError)"

text \<open>
  One round of \<^verbatim>\<open>for key, val in vnode.props.items()\<close>. A key of one part is assigned on
  the node itself, under its renamed key; a key of several parts is assigned inside the
  properties of the node.
\<close>

definition assign_prop :: "parser \<Rightarrow> string \<Rightarrow> jsval \<Rightarrow> ref \<Rightarrow> dom \<Rightarrow> error + dom" where
  "assign_prop P key val n s =
     (case key_parts key of
        [k] \<Rightarrow> Inr (node_assign P (rename_key k) val n s)
      | parts \<Rightarrow>
          (case assign_path parts val (attrs (s ! n)) of
             Inl e \<Rightarrow> Inl e
           | Inr ob \<Rightarrow> Inr (s[n := (s ! n)\<lparr>attrs := ob\<rparr>])))"

text \<open>The loop over the props. A failure leaves the assignments made before it in
  place.\<close>

fun resolve_props :: "parser \<Rightarrow> (string \<times> jsval) list \<Rightarrow> ref \<Rightarrow> dom \<Rightarrow> error option \<times> dom" where
  "resolve_props P [] n s = (None, s)"
| "resolve_props P ((key, val) # kvs) n s =
     (case assign_prop P key val n s of
        Inl e \<Rightarrow> (Some e, s)
      | Inr s1 \<Rightarrow> resolve_props P kvs n s1)"

text \<open>Resolve the node itself: reuse \<^verbatim>\<open>node\<close> when its tag is the wanted one up to
  case, otherwise create a node.\<close>

definition resolve_node :: "string \<Rightarrow> ref option \<Rightarrow> dom \<Rightarrow> ref \<times> dom" where
  "resolve_node ty node s =
     (case node of
        None \<Rightarrow> createElement ty s
      | Some n \<Rightarrow>
          (if lower (nodeName (s ! n)) \<noteq> lower ty then createElement ty s else (n, s)))"

text \<open>Resolve the node and its props.\<close>

definition resolve_shallow :: "parser \<Rightarrow> string \<Rightarrow> (string \<times> jsval) list \<Rightarrow> ref option \<Rightarrow> dom \<Rightarrow> error option \<times> ref \<times> dom" where
  "resolve_shallow P ty kvs node s =
     (case resolve_node ty node s of
        (n, s1) \<Rightarrow> (case resolve_props P kvs n s1 of (e, s2) \<Rightarrow> (e, n, s2)))"

text \<open>
  \<^verbatim>\<open>while len(node.children) > len(vnode.children):
      node.removeChild(node.children[len(node.children)-1])\<close>
  Each round changes the child list of \<^verbatim>\<open>node\<close> only, so the loop runs on that list.
\<close>

function truncate_children :: "nat \<Rightarrow> ref list \<Rightarrow> ref list" where
  "truncate_children N cs =
     (if length cs > N then truncate_children N (remove1 (last cs) cs) else cs)"
  by pat_completeness auto
termination
  by (relation "measure (\<lambda>(N, cs). length cs)") (auto simp: length_remove1 intro!: last_in_set)

declare truncate_children.simps [simp del]

definition truncate_node :: "nat \<Rightarrow> ref \<Rightarrow> dom \<Rightarrow> dom" where
  "truncate_node N n s = s[n := (s ! n)\<lparr>children := truncate_children N (children (s ! n))\<rparr>]"

text \<open>One round of the loop over \<^verbatim>\<open>vnode.children\<close>, after the recursive call: put
  \<^verbatim>\<open>new_subnode\<close> where \<^verbatim>\<open>subnode\<close> was.\<close>

definition splice :: "ref \<Rightarrow> ref option \<Rightarrow> ref \<Rightarrow> dom \<Rightarrow> error option \<times> dom" where
  "splice n subnode new_subnode s =
     (case subnode of
        None \<Rightarrow> (None, appendChild n new_subnode s)
      | Some sub \<Rightarrow>
          (if sub \<noteq> new_subnode then
             (case insertBefore n new_subnode sub s of
                Inl e \<Rightarrow> (Some e, s)
              | Inr s1 \<Rightarrow>
                  (case removeChild n sub s1 of
                     Inl e \<Rightarrow> (Some e, s1)
                   | Inr s2 \<Rightarrow> (None, s2)))
           else (None, s)))"

text \<open>\<^verbatim>\<open>Widget.__render_resolve(vnode, node)\<close>, the content of the node, and the loop over
  the children of the virtual node.\<close>

fun render_resolve :: "parser \<Rightarrow> vnode \<Rightarrow> ref option \<Rightarrow> dom \<Rightarrow> (error + ref) \<times> dom"
  and resolve_content :: "parser \<Rightarrow> vchildren \<Rightarrow> ref \<Rightarrow> dom \<Rightarrow> error option \<times> dom"
  and resolve_list :: "parser \<Rightarrow> vnode list \<Rightarrow> nat \<Rightarrow> ref \<Rightarrow> dom \<Rightarrow> error option \<times> dom"
where
  "render_resolve P (VReal r) node s = (Inr r, s)"
| "render_resolve P (VStr x) node s =
     (case resolve_shallow P ''span'' [] node s of
        (_, n, s1) \<Rightarrow> (Inr n, set_innerHTML P n x s1))"
| "render_resolve P VOther node s = (Inl TypeError, s)"
| "render_resolve P (VDict ty props c) node s =
     (case ty of
        TOther \<Rightarrow> (Inl TypeError, s)
      | TStr t \<Rightarrow>
          (case props of
             PDict kvs \<Rightarrow>
               (case resolve_shallow P t kvs node s of
                  (Some e, n, s1) \<Rightarrow> (Inl e, s1)
                | (None, n, s1) \<Rightarrow>
                    (case resolve_content P c n s1 of
                       (Some e, s2) \<Rightarrow> (Inl e, s2)
                     | (None, s2) \<Rightarrow> (Inr n, s2)))
           | _ \<Rightarrow> (Inl TypeError, s)))"
| "resolve_content P CNone n s = (None, s)"
| "resolve_content P (CStr x) n s = (None, set_innerHTML P n x s)"
| "resolve_content P (CList vs) n s = resolve_list P vs 0 n (truncate_node (length vs) n s)"
| "resolve_content P COther n s = (Some TypeError, s)"
| "resolve_list P [] i n s = (None, s)"
| "resolve_list P (v # vs) i n s =
     (let cs = children (s ! n);
          subnode = (if i < length cs then Some (cs ! i) else None)
      in case render_resolve P v subnode s of
           (Inl e, s1) \<Rightarrow> (Some e, s1)
         | (Inr new_subnode, s1) \<Rightarrow>
             (case splice n subnode new_subnode s1 of
                (Some e, s2) \<Rightarrow> (Some e, s2)
              | (None, s2) \<Rightarrow> resolve_list P vs (i + 1) n s2))"

subsection \<open>The render reaction\<close>

text \<open>
  What \<^verbatim>\<open>_render_dom()\<close> returned: \<^verbatim>\<open>None\<close>, a list, or any other value (a real node,
  a string, a dict, or something else that is not \<^verbatim>\<open>None\<close>).
\<close>

datatype rendered = RNone | RList "vnode list" | RVal vnode

text \<open>The last two lines of \<^verbatim>\<open>__render\<close>:
  \<^verbatim>\<open>node = self.__render_resolve(vnode, self.outernode); assert node is self.outernode\<close>\<close>

definition render_root :: "parser \<Rightarrow> ref \<Rightarrow> vnode \<Rightarrow> dom \<Rightarrow> error option \<times> dom" where
  "render_root P outernode v s =
     (case render_resolve P v (Some outernode) s of
        (Inl e, s1) \<Rightarrow> (Some e, s1)
      | (Inr node, s1) \<Rightarrow> (if node = outernode then (None, s1) else (Some AssertionError, s1)))"

text \<open>\<^verbatim>\<open>Widget.__render\<close>, with the value of \<^verbatim>\<open>self._render_dom()\<close> as an argument.\<close>

definition render :: "parser \<Rightarrow> ref \<Rightarrow> rendered \<Rightarrow> dom \<Rightarrow> error option \<times> dom" where
  "render P outernode r s =
     (case r of
        RNone \<Rightarrow> (None, s)
      | RList vs \<Rightarrow>
          render_root P outernode (VDict (TStr (nodeName (s ! outernode))) (PDict []) (CList vs)) s
      | RVal (VReal x) \<Rightarrow> (if x = outernode then (None, s) else (Some TypeError, s))
      | RVal (VStr x) \<Rightarrow>
          render_root P outernode (VDict (TStr (nodeName (s ! outernode))) (PDict []) (CStr x)) s
      | RVal (VDict ty props c) \<Rightarrow>
          (case ty of
             TOther \<Rightarrow> (Some AttributeError, s)
           | TStr t \<Rightarrow>
               (if lower t \<noteq> lower (nodeName (s ! outernode)) then (Some ValueError, s)
                else render_root P outernode (VDict ty props c) s))
      | RVal VOther \<Rightarrow> (Some TypeError, s))"

subsection \<open>Parenting\<close>

text \<open>
  Widgets are named by an identifier; the hierarchy gives each widget its \<^verbatim>\<open>parent\<close> and
  \<^verbatim>\<open>children\<close> properties (\<open>w_children\<close> here, the name \<open>children\<close> being the child
  list of a real node). The entries of \<^verbatim>\<open>children\<close> are widgets or \<^verbatim>\<open>None\<close>, since
  \<^verbatim>\<open>set_parent\<close> can append \<^verbatim>\<open>None\<close> to the list.
\<close>

type_synonym wid = nat

record widget =
  parent :: "wid option"
  w_children :: "wid option list"

type_synonym hierarchy = "wid \<Rightarrow> widget"

text \<open>The arguments of \<^verbatim>\<open>set_parent(self, parent, pos=None)\<close>: the parent is \<^verbatim>\<open>None\<close>, a
  widget or something else; the position is \<^verbatim>\<open>None\<close>, an integer or not a number.\<close>

datatype parent_arg = NoParent | AWidget wid | NotAWidget

datatype pos_arg = PNone | PInt int | PNaN

text \<open>\<^verbatim>\<open>list.insert(i, x)\<close>: a negative index counts from the end, and the index is clamped
  to the list.\<close>

definition py_insert :: "int \<Rightarrow> 'a \<Rightarrow> 'a list \<Rightarrow> 'a list" where
  "py_insert i x xs =
     (let n = int (length xs);
          j = (if i < 0 then max 0 (i + n) else min i n)
      in take (nat j) xs @ x # drop (nat j) xs)"

text \<open>\<^verbatim>\<open>while self in children: children.remove(self)\<close>\<close>

function remove_self :: "'a \<Rightarrow> 'a list \<Rightarrow> 'a list" where
  "remove_self x xs = (if x \<in> set xs then remove_self x (remove1 x xs) else xs)"
  by pat_completeness auto
termination
  by (relation "measure (\<lambda>(x, xs). length xs)") (auto simp: length_remove1 dest: length_pos_if_in_set)

declare remove_self.simps [simp del]

definition set_parent :: "wid \<Rightarrow> parent_arg \<Rightarrow> pos_arg \<Rightarrow> hierarchy \<Rightarrow> error + hierarchy" where
  "set_parent self new pos h =
     (let old_parent = parent (h self) in
      case new of
        NotAWidget \<Rightarrow> Inl ValueError
      | _ \<Rightarrow>
         (let new_parent = (case new of AWidget p \<Rightarrow> Some p | _ \<Rightarrow> None) in
          if new_parent = old_parent \<and> pos = PNone then Inr h
          else
            (let h1 = h(self := (h self)\<lparr>parent := new_parent\<rparr>);
                 children1 = (case old_parent of
                                None \<Rightarrow> []
                              | Some op \<Rightarrow> remove_self (Some self) (w_children (h1 op)));
                 h2 = (case old_parent of
                         None \<Rightarrow> h1
                       | Some op \<Rightarrow>
                           (if old_parent \<noteq> new_parent
                            then h1(op := (h1 op)\<lparr>w_children := children1\<rparr>) else h1))
             in case new_parent of
                  None \<Rightarrow> Inr h2
                | Some np \<Rightarrow>
                    (let children2 = (if old_parent \<noteq> new_parent then w_children (h2 np)
                                      else children1);
                         children3 = remove_self (Some self) children2;
                         children4 =
                           (case pos of
                              PNone \<Rightarrow> children3 @ [Some self]
                            | PInt i \<Rightarrow>
                                (if i \<ge> 0 then py_insert i (Some self) children3
                                 else butlast (py_insert i (Some self) (children3 @ [None])))
                            | PNaN \<Rightarrow> children3 @ [None])
                     in Inr (h2(np := (h2 np)\<lparr>w_children := children4\<rparr>))))))"

subsection \<open>Mouse events\<close>

text \<open>The fields of a raw mouse or wheel event that the widget reads.\<close>

record raw_event =
  altKey :: bool
  shiftKey :: bool
  ctrlKey :: bool
  metaKey :: bool
  clientX :: real
  clientY :: real
  pageX :: real
  pageY :: real
  e_button :: int
  e_buttons :: nat
  deltaX :: real
  deltaY :: real
  deltaMode :: int

text \<open>The event dict the emitters return; \<open>hscroll\<close> and \<open>vscroll\<close> are set on wheel
  events only.\<close>

record mouse_event =
  pos :: "real \<times> real"
  page_pos :: "real \<times> real"
  button :: int
  buttons :: "nat list"
  modifiers :: "string list"
  hscroll :: "real option"
  vscroll :: "real option"

text \<open>What the handlers read besides the event: the bounding rectangle of the inner
  anchor, whether the anchor has \<^verbatim>\<open>setCapture\<close>, and \<^verbatim>\<open>window.event\<close>.\<close>

record env =
  rect_left :: real
  rect_top :: real
  has_setCapture :: bool
  window_event :: "raw_event option"

text \<open>\<^verbatim>\<open>n.toString(2)\<close>\<close>

function to_string2 :: "nat \<Rightarrow> string" where
  "to_string2 n =
     (if n < 2 then [if n = 0 then CHR ''0'' else CHR ''1'']
      else to_string2 (n div 2) @ [if n mod 2 = 0 then CHR ''0'' else CHR ''1''])"
  by pat_completeness auto
termination
  by (relation "measure id") auto

declare to_string2.simps [simp del]

definition int_to_string2 :: "int \<Rightarrow> string" where
  "int_to_string2 i = (if i < 0 then CHR ''-'' # to_string2 (nat (- i)) else to_string2 (nat i))"

text \<open>
  \<^verbatim>\<open>buttons_mask\<close> is the binary digits of \<^verbatim>\<open>e.buttons\<close>, lowest first, or the one-element
  list \<^verbatim>\<open>[e.button.toString(2)]\<close>. Reading it past its end gives a value that is not
  \<^verbatim>\<open>'1'\<close>.
\<close>

definition buttons_mask :: "raw_event \<Rightarrow> string list" where
  "buttons_mask e =
     (if e_buttons e \<noteq> 0 then map (\<lambda>c. [c]) (rev (to_string2 (e_buttons e)))
      else [int_to_string2 (e_button e)])"

text \<open>\<^verbatim>\<open>{0: 1, 1: 3, 2: 2, 3: 4, 4: 5}[e.button]\<close>\<close>

definition button_of :: "int \<Rightarrow> error + int" where
  "button_of b =
     (if b = 0 then Inr 1 else if b = 1 then Inr 3 else if b = 2 then Inr 2
      else if b = 3 then Inr 4 else if b = 4 then Inr 5 else Inl KeyError)"

definition create_mouse_event :: "env \<Rightarrow> raw_event \<Rightarrow> error + mouse_event" where
  "create_mouse_event v e =
     (let mods = map fst (filter snd
            [(''Alt'', altKey e), (''Shift'', shiftKey e), (''Ctrl'', ctrlKey e), (''Meta'', metaKey e)]);
          mask = buttons_mask e;
          bs = map Suc (filter (\<lambda>i. i < length mask \<and> mask ! i = ''1'') [0..<5])
      in case button_of (e_button e) of
           Inl err \<Rightarrow> Inl err
         | Inr b \<Rightarrow>
             Inr \<lparr>pos = (clientX e - rect_left v, clientY e - rect_top v),
                  page_pos = (pageX e, pageY e),
                  button = b, buttons = bs, modifiers = mods,
                  hscroll = None, vscroll = None\<rparr>)"

text \<open>The bodies of the emitters \<^verbatim>\<open>mouse_down\<close>, \<^verbatim>\<open>mouse_up\<close>, \<^verbatim>\<open>mouse_move\<close> and
  \<^verbatim>\<open>mouse_wheel\<close>.\<close>

definition mouse_down :: "env \<Rightarrow> raw_event \<Rightarrow> error + mouse_event" where
  "mouse_down v e = create_mouse_event v e"

definition mouse_up :: "env \<Rightarrow> raw_event \<Rightarrow> error + mouse_event" where
  "mouse_up v e = create_mouse_event v e"

definition mouse_move :: "env \<Rightarrow> raw_event \<Rightarrow> error + mouse_event" where
  "mouse_move v e =
     (case create_mouse_event v e of
        Inl err \<Rightarrow> Inl err
      | Inr ev \<Rightarrow> Inr (ev\<lparr>button := 0\<rparr>))"

text \<open>\<^verbatim>\<open>[1, 16, 600][e.deltaMode]\<close>: a negative index counts from the end.\<close>

definition wheel_factor :: "int \<Rightarrow> error + real" where
  "wheel_factor m =
     (let table = [1, 16, 600]; n = int (length table); j = (if m < 0 then m + n else m)
      in if 0 \<le> j \<and> j < n then Inr (table ! nat j) else Inl IndexError)"

definition mouse_wheel :: "env \<Rightarrow> raw_event \<Rightarrow> error + mouse_event" where
  "mouse_wheel v e =
     (case create_mouse_event v e of
        Inl err \<Rightarrow> Inl err
      | Inr ev \<Rightarrow>
          (case wheel_factor (deltaMode e) of
             Inl err \<Rightarrow> Inl err
           | Inr f \<Rightarrow>
               Inr (ev\<lparr>button := 0, hscroll := Some (deltaX e * f), vscroll := Some (deltaY e * f)\<rparr>)))"

subsection \<open>Mouse capturing\<close>

text \<open>
  The state the closures of \<^verbatim>\<open>_init_events\<close> share: the property \<^verbatim>\<open>capture_mouse\<close>, the
  attribute \<^verbatim>\<open>_capture_flag\<close>, whether \<^verbatim>\<open>mmove_outside\<close> and \<^verbatim>\<open>mup_outside\<close> are
  installed on the document, whether \<^verbatim>\<open>setCapture\<close> was called, and the events emitted so
  far, each with its type.
\<close>

record input_state =
  capture_mouse :: int
  capture_flag :: int
  doc_mousemove :: bool
  doc_mouseup :: bool
  dom_capture :: bool
  emitted :: "(string \<times> mouse_event) list"

text \<open>An emitter emits the event its body returns; when the body raises, nothing is
  emitted and the error leaves the handler.\<close>

definition emit :: "string \<Rightarrow> error + mouse_event \<Rightarrow> input_state \<Rightarrow> error option \<times> input_state" where
  "emit name r st =
     (case r of
        Inl err \<Rightarrow> (Some err, st)
      | Inr ev \<Rightarrow> (None, st\<lparr>emitted := emitted st @ [(name, ev)]\<rparr>))"

definition mdown :: "env \<Rightarrow> raw_event \<Rightarrow> input_state \<Rightarrow> input_state" where
  "mdown v e st =
     (if capture_mouse st = 0 then st\<lparr>capture_flag := 1\<rparr>
      else st\<lparr>capture_flag := 2, doc_mousemove := True, doc_mouseup := True,
              dom_capture := (has_setCapture v \<or> dom_capture st)\<rparr>)"

definition mmove_inside :: "env \<Rightarrow> raw_event \<Rightarrow> input_state \<Rightarrow> error option \<times> input_state" where
  "mmove_inside v e st =
     (if capture_flag st = - 1 then (None, st\<lparr>capture_flag := 0\<rparr>)
      else if capture_flag st = 1 then emit ''mouse_move'' (mouse_move v e) st
      else if capture_flag st = 0 \<and> capture_mouse st > 1 then emit ''mouse_move'' (mouse_move v e) st
      else (None, st))"

definition mup_inside :: "env \<Rightarrow> raw_event \<Rightarrow> input_state \<Rightarrow> error option \<times> input_state" where
  "mup_inside v e st =
     (if capture_flag st = 1 then
        (case emit ''mouse_up'' (mouse_up v e) st of
           (Some err, st1) \<Rightarrow> (Some err, st1)
         | (None, st1) \<Rightarrow> (None, st1\<lparr>capture_flag := 0\<rparr>))
      else (None, st\<lparr>capture_flag := 0\<rparr>))"

text \<open>\<^verbatim>\<open>e = window.event if window.event else e\<close>\<close>

definition effective_event :: "env \<Rightarrow> raw_event \<Rightarrow> raw_event" where
  "effective_event v e = (case window_event v of Some we \<Rightarrow> we | None \<Rightarrow> e)"

definition mmove_outside :: "env \<Rightarrow> raw_event \<Rightarrow> input_state \<Rightarrow> error option \<times> input_state" where
  "mmove_outside v e st =
     (if capture_flag st = 2 then emit ''mouse_move'' (mouse_move v (effective_event v e)) st
      else (None, st))"

definition stopcapture :: "input_state \<Rightarrow> input_state" where
  "stopcapture st =
     (if capture_flag st = 2
      then st\<lparr>capture_flag := - 1, doc_mousemove := False, doc_mouseup := False\<rparr>
      else st)"

definition mup_outside :: "env \<Rightarrow> raw_event \<Rightarrow> input_state \<Rightarrow> error option \<times> input_state" where
  "mup_outside v e st =
     (if capture_flag st = 2 then emit ''mouse_up'' (mouse_up v (effective_event v e)) (stopcapture st)
      else (None, st))"

definition losecapture :: "input_state \<Rightarrow> input_state" where
  "losecapture st = stopcapture st"

text \<open>
  The listeners as \<^verbatim>\<open>_init_events\<close> installs them. A press on the inner anchor runs
  \<^verbatim>\<open>mdown\<close> and the emitter \<^verbatim>\<open>mouse_down\<close>. A move or a release anywhere in the document
  reaches \<^verbatim>\<open>mmove_outside\<close> or \<^verbatim>\<open>mup_outside\<close> while \<^verbatim>\<open>mdown\<close> has them installed on the
  document.
\<close>

definition node_mousedown :: "env \<Rightarrow> raw_event \<Rightarrow> input_state \<Rightarrow> error option \<times> input_state" where
  "node_mousedown v e st = emit ''mouse_down'' (mouse_down v e) (mdown v e st)"

definition document_mousemove :: "env \<Rightarrow> raw_event \<Rightarrow> input_state \<Rightarrow> error option \<times> input_state" where
  "document_mousemove v e st = (if doc_mousemove st then mmove_outside v e st else (None, st))"

definition document_mouseup :: "env \<Rightarrow> raw_event \<Rightarrow> input_state \<Rightarrow> error option \<times> input_state" where
  "document_mouseup v e st = (if doc_mouseup st then mup_outside v e st else (None, st))"

text \<open>A press on the inner anchor, then a move delivered by the document.\<close>

definition press_then_outside_move :: "env \<Rightarrow> raw_event \<Rightarrow> raw_event \<Rightarrow> input_state \<Rightarrow> error option \<times> input_state" where
  "press_then_outside_move v e1 e2 st = document_mousemove v e2 (snd (node_mousedown v e1 st))"

text \<open>The \<^verbatim>\<open>mouse_move\<close> events among the emitted ones.\<close>

definition moves :: "input_state \<Rightarrow> mouse_event list" where
  "moves st = map snd (filter (\<lambda>p. fst p = ''mouse_move'') (emitted st))"

subsection \<open>Predicates of the properties\<close>

text \<open>
  Between two states of the document: every node of the first is still there in the
  second with the tag it had, or with the child list it had. Of a key: it holds two
  adjacent underscores. And of props: none of their keys ends in a property whose setter
  changes the tree of nodes.
\<close>

definition tags_kept :: "dom \<Rightarrow> dom \<Rightarrow> bool" where
  "tags_kept s s' \<longleftrightarrow>
     length s \<le> length s' \<and> map nodeName (take (length s) s') = map nodeName s"

definition children_kept :: "dom \<Rightarrow> dom \<Rightarrow> bool" where
  "children_kept s s' \<longleftrightarrow>
     length s \<le> length s' \<and> map children (take (length s) s') = map children s"

fun has_dunder :: "string \<Rightarrow> bool" where
  "has_dunder (c1 # c2 # cs) = ((c1 = CHR ''_'' \<and> c2 = CHR ''_'') \<or> has_dunder (c2 # cs))"
| "has_dunder cs = False"

definition tree_keys :: "string list" where
  "tree_keys = [''innerHTML'', ''outerHTML'', ''textContent'', ''innerText'', ''outerText'', ''text'']"

definition inert_key :: "string \<Rightarrow> bool" where
  "inert_key key \<longleftrightarrow> last (key_parts key) \<notin> set tree_keys"

definition inert_props :: "vprops \<Rightarrow> bool" where
  "inert_props props =
     (case props of PDict kvs \<Rightarrow> list_all (\<lambda>kv. inert_key (fst kv)) kvs | _ \<Rightarrow> True)"

subsection \<open>Concrete inputs\<close>

text \<open>A raw event with Shift held and the left button down, the surroundings of a widget
  whose inner anchor starts at (10, 10), a widget at rest with a given \<^verbatim>\<open>capture_mouse\<close>,
  a hierarchy in which widget 0 is a child of widget 1, a document of four nodes (a
  \<^verbatim>\<open>div\<close> with a \<^verbatim>\<open>span\<close> and a \<^verbatim>\<open>p\<close> as its children, the \<^verbatim>\<open>span\<close> with a class and a
  \<^verbatim>\<open>b\<close> as its child), and a parser that is right on the markup \<^verbatim>\<open><i></i>\<close> and on
  every text without a tag.\<close>

definition event0 :: raw_event where
  "event0 = \<lparr>altKey = False, shiftKey = True, ctrlKey = False, metaKey = False,
         clientX = 30, clientY = 40, pageX = 30, pageY = 140, e_button = 0, e_buttons = 1,
         deltaX = 0, deltaY = 2, deltaMode = 1\<rparr>"

definition env0 :: env where
  "env0 = \<lparr>rect_left = 10, rect_top = 10, has_setCapture = False, window_event = None\<rparr>"

definition idle :: "int \<Rightarrow> input_state" where
  "idle cm = \<lparr>capture_mouse = cm, capture_flag = 0, doc_mousemove = False, doc_mouseup = False,
            dom_capture = False, emitted = []\<rparr>"

definition hier0 :: hierarchy where
  "hier0 = (\<lambda>_. \<lparr>parent = None, w_children = []\<rparr>)
       (0 := \<lparr>parent = Some 1, w_children = []\<rparr>,
        1 := \<lparr>parent = None, w_children = [Some 0, Some 3]\<rparr>)"

definition dom0 :: dom where
  "dom0 = [\<lparr>nodeName = ''DIV'', attrs = [(''style'', JObj [])], children = [1, 2]\<rparr>,
           \<lparr>nodeName = ''SPAN'', attrs = [(''className'', JStr ''note'')], children = [3]\<rparr>,
           \<lparr>nodeName = ''P'', attrs = [], children = []\<rparr>,
           \<lparr>nodeName = ''B'', attrs = [], children = []\<rparr>]"

definition parse0 :: parser where
  "parse0 t x = (if x = ''<i></i>'' then [Element ''I'' [] []] else [])"

section \<open>Properties\<close>

subsection \<open>Prop keys\<close>

lemma replace_dunder_other: "c \<noteq> CHR ''_'' \<Longrightarrow> replace_dunder (c # cs) = c # replace_dunder cs"
  by (cases cs) simp_all

lemma replace_dunder_dot:
  "replace_dunder (a @ CHR ''.'' # b) = replace_dunder a @ CHR ''.'' # replace_dunder b"
proof (induction a rule: replace_dunder.induct)
  fix c :: char
  show "replace_dunder ([c] @ CHR ''.'' # b) = replace_dunder [c] @ CHR ''.'' # replace_dunder b"
    by (cases "c = CHR ''_''") (simp_all add: replace_dunder_other)
qed (simp_all add: replace_dunder_other)

lemma replace_dunder_dunder:
  "a = [] \<or> last a \<noteq> CHR ''_'' \<Longrightarrow>
   replace_dunder (a @ CHR ''_'' # CHR ''_'' # b) = replace_dunder a @ CHR ''.'' # replace_dunder b"
proof (induction a rule: replace_dunder.induct)
  case (1 c1 c2 cs)
  then show ?case by (cases "cs = []") auto
qed simp_all

lemma split_dot_not_Nil: "split_dot cs \<noteq> []"
  by (induction cs) (auto split: list.splits)

lemma split_dot_append: "split_dot (x @ CHR ''.'' # y) = split_dot x @ split_dot y"
proof (induction x)
  case Nil
  show ?case by simp
next
  case (Cons c x)
  then show ?case
    using split_dot_not_Nil [of x] by (cases "split_dot x") auto
qed

lemma has_dunder_Cons: "has_dunder (c # r) = ((c = CHR ''_'' \<and> r \<noteq> [] \<and> hd r = CHR ''_'') \<or> has_dunder r)"
  by (cases r) auto

lemma replace_dunder_hd: "cs \<noteq> [] \<Longrightarrow> replace_dunder cs \<noteq> [] \<and> (hd (replace_dunder cs) = CHR ''_'' \<longrightarrow> hd cs = CHR ''_'' \<and> (tl cs = [] \<or> hd (tl cs) \<noteq> CHR ''_''))"
  by (induction cs rule: replace_dunder.induct) auto

lemma no_dunder_left: "\<not> has_dunder (replace_dunder key)"
proof (induction key rule: replace_dunder.induct)
  case (1 c1 c2 cs)
  show ?case
  proof (cases "c1 = CHR ''_'' \<and> c2 = CHR ''_''")
    case True
    with 1 show ?thesis by (simp add: has_dunder_Cons)
  next
    case False
    with 1 have ih: "\<not> has_dunder (replace_dunder (c2 # cs))" by simp
    have "\<not> (c1 = CHR ''_'' \<and> hd (replace_dunder (c2 # cs)) = CHR ''_'')"
      using False replace_dunder_hd [of "c2 # cs"] by auto
    with False ih show ?thesis by (auto simp add: has_dunder_Cons)
  qed
qed simp_all

text \<open>
  C10. In prop resolution \<^verbatim>\<open>'__'\<close> is the path separator: the parts of a key are those of
  the key with \<^verbatim>\<open>'__'\<close> replaced by \<^verbatim>\<open>'.'\<close>. A key \<^verbatim>\<open>a + '__' + b\<close> has the parts of
  \<^verbatim>\<open>a\<close> followed by the parts of \<^verbatim>\<open>b\<close>, as \<^verbatim>\<open>a + '.' + b\<close> has, and so assigns the same
  nested target (\<^verbatim>\<open>a\<close> not ending in an underscore, so that the two underscores are an
  occurrence that \<^verbatim>\<open>replace\<close>, going from the left, finds). After the replacement no
  \<^verbatim>\<open>'__'\<close> is left in any key.
\<close>

theorem dunder_is_path_separator:
  assumes "a = [] \<or> last a \<noteq> CHR ''_''"
  shows "key_parts (a @ ''__'' @ b) = key_parts a @ key_parts b
       \<and> key_parts (a @ ''.'' @ b) = key_parts a @ key_parts b
       \<and> resolve_props P ((a @ ''__'' @ b, v) # kvs) n s = resolve_props P ((a @ ''.'' @ b, v) # kvs) n s
       \<and> \<not> has_dunder (replace_dunder key)"
proof -
  have 1: "key_parts (a @ ''__'' @ b) = key_parts a @ key_parts b"
    using assms by (simp add: key_parts_def replace_dunder_dunder split_dot_append)
  have 2: "key_parts (a @ ''.'' @ b) = key_parts a @ key_parts b"
    by (simp add: key_parts_def replace_dunder_dot split_dot_append)
  have "assign_prop P (a @ ''__'' @ b) v n s = assign_prop P (a @ ''.'' @ b) v n s"
    unfolding assign_prop_def 1 2 ..
  then have 3: "resolve_props P ((a @ ''__'' @ b, v) # kvs) n s = resolve_props P ((a @ ''.'' @ b, v) # kvs) n s"
    by simp
  from 1 2 3 show ?thesis by (simp add: no_dunder_left)
qed

theorem dunder_is_path_separator_witness:
  "key_parts ''style__color'' = [''style'', ''color'']
   \<and> key_parts ''style.color'' = [''style'', ''color'']
   \<and> resolve_props parse0 [(''style__color'', JStr ''red'')] 2 dom0 = (Some KeyError, dom0)
   \<and> resolve_props parse0 [(''style__color'', JStr ''red'')] 0 dom0 =
       (None, dom0[0 := \<lparr>nodeName = ''DIV'', attrs = [(''style'', JObj [(''color'', JStr ''red'')])],
                         children = [1, 2]\<rparr>])
   \<and> resolve_props parse0 [(''style.color'', JStr ''red'')] 0 dom0 =
       (None, dom0[0 := \<lparr>nodeName = ''DIV'', attrs = [(''style'', JObj [(''color'', JStr ''red'')])],
                         children = [1, 2]\<rparr>])"
  using dunder_is_path_separator [of "''style''" "''color''" parse0 "JStr ''red''" "[]" 0 dom0 "''style__color''"]
  by (simp add: key_parts_def rename_key_def assign_prop_def dom0_def)

subsection \<open>What the document operations keep\<close>

lemma tags_kept_refl: "tags_kept s s"
  by (simp add: tags_kept_def)

lemma tags_kept_trans: "tags_kept s s1 \<Longrightarrow> tags_kept s1 s2 \<Longrightarrow> tags_kept s s2"
proof -
  assume a: "tags_kept s s1" and b: "tags_kept s1 s2"
  then have len: "length s \<le> length s1" "length s1 \<le> length s2"
    by (simp_all add: tags_kept_def)
  have "map nodeName (take (length s) s2) = take (length s) (map nodeName (take (length s1) s2))"
    using len by (simp add: take_map min_def)
  also have "\<dots> = take (length s) (map nodeName s1)"
    using b by (simp add: tags_kept_def)
  also have "\<dots> = map nodeName (take (length s) s1)"
    by (simp add: take_map)
  also have "\<dots> = map nodeName s"
    using a by (simp add: tags_kept_def)
  finally show ?thesis using len by (simp add: tags_kept_def)
qed

lemma tags_kept_nth: "tags_kept s s' \<Longrightarrow> r < length s \<Longrightarrow> nodeName (s' ! r) = nodeName (s ! r)"
proof -
  assume a: "tags_kept s s'" and r: "r < length s"
  then have len: "length s \<le> length s'" and eq: "map nodeName (take (length s) s') = map nodeName s"
    by (simp_all add: tags_kept_def)
  have "nodeName (s' ! r) = map nodeName (take (length s) s') ! r"
    using r len by simp
  also have "\<dots> = map nodeName s ! r" by (simp only: eq)
  also have "\<dots> = nodeName (s ! r)" using r by simp
  finally show ?thesis .
qed

lemma tags_kept_same: "map nodeName s' = map nodeName s \<Longrightarrow> tags_kept s s'"
proof -
  assume a: "map nodeName s' = map nodeName s"
  then have "length s' = length s" by (metis length_map)
  with a show ?thesis by (simp add: tags_kept_def)
qed

lemma field_update: "f x = f (s ! n) \<Longrightarrow> map f (s[n := x]) = map f s"
  by (cases "n < length s") (simp_all add: map_update list_update_same_conv list_update_beyond)

lemma tags_detach: "map nodeName (detach c s) = map nodeName s"
  by (simp add: detach_def)

lemma tags_appendChild: "map nodeName (appendChild p c s) = map nodeName s"
  by (simp add: appendChild_def Let_def field_update tags_detach)

lemma tags_insertBefore: "insertBefore p new old s = Inr s' \<Longrightarrow> map nodeName s' = map nodeName s"
  by (auto simp: insertBefore_def Let_def field_update tags_detach split: if_splits)

lemma tags_removeChild: "removeChild p c s = Inr s' \<Longrightarrow> map nodeName s' = map nodeName s"
  by (auto simp: removeChild_def field_update split: if_splits)

lemma tags_splice: "map nodeName (snd (splice n sub new s)) = map nodeName s"
  by (auto simp: splice_def tags_appendChild split: option.splits sum.splits
      dest!: tags_insertBefore tags_removeChild)

lemma take_prefix_kept:
  assumes "length s \<le> length s'" and "take (length s) s' = s"
  shows "tags_kept s s'" and "children_kept s s'"
  using assms by (simp_all add: tags_kept_def children_kept_def)

lemma alloc_prefix:
  "length s \<le> length (snd (alloc h s)) \<and> take (length s) (snd (alloc h s)) = s"
  "length s \<le> length (snd (alloc_list hs s)) \<and> take (length s) (snd (alloc_list hs s)) = s"
proof (induction h s and hs s rule: alloc_alloc_list.induct)
  case (1 t a hs s)
  obtain rs s1 where r: "alloc_list hs s = (rs, s1)" by (cases "alloc_list hs s")
  with 1 have "length s \<le> length s1" "take (length s) s1 = s" by simp_all
  with r show ?case by simp
next
  case (2 s)
  show ?case by simp
next
  case (3 h hs s)
  obtain r s1 where a: "alloc h s = (r, s1)" by (cases "alloc h s")
  obtain rs s2 where b: "alloc_list hs s1 = (rs, s2)" by (cases "alloc_list hs s1")
  from 3(1) a have 1: "length s \<le> length s1" "take (length s) s1 = s" by simp_all
  from 3(2) [OF a [symmetric]] b have 2: "length s1 \<le> length s2" "take (length s1) s2 = s1"
    by simp_all
  have "take (length s) s2 = take (length s) (take (length s1) s2)"
    using 1(1) by (simp add: min_def)
  also have "\<dots> = s" using 1(2) 2(2) by simp
  finally show ?case using a b 1 2 by simp
qed

lemma tags_alloc_list: "tags_kept s (snd (alloc_list hs s))"
  using alloc_prefix(2) [of s hs] by (simp add: take_prefix_kept)

lemma tags_set_children: "map nodeName (set_children n rs s) = map nodeName s"
  by (simp add: set_children_def field_update)

lemma tags_replace_content: "tags_kept s (replace_content P n val s)"
proof (cases val)
  case (JStr x)
  obtain rs s1 where r: "alloc_list (P (nodeName (s ! n)) x) s = (rs, s1)"
    by (cases "alloc_list (P (nodeName (s ! n)) x) s")
  have "tags_kept s s1" using tags_alloc_list [of s "P (nodeName (s ! n)) x"] r by simp
  moreover have "tags_kept s1 (set_children n rs s1)"
    by (rule tags_kept_same) (rule tags_set_children)
  ultimately show ?thesis using JStr r by (simp add: replace_content_def tags_kept_trans)
qed (simp_all add: replace_content_def tags_kept_same tags_set_children)

lemma tags_node_assign: "tags_kept s (node_assign P k val n s)"
proof -
  let ?s1 = "s[n := (s ! n)\<lparr>attrs := AList.update k val (attrs (s ! n))\<rparr>]"
  have a: "tags_kept s ?s1" by (rule tags_kept_same) (simp add: field_update)
  have "tags_kept ?s1 (replace_content P n val ?s1)" by (rule tags_replace_content)
  with a have b: "tags_kept s (replace_content P n val ?s1)" by (rule tags_kept_trans)
  have "tags_kept ?s1 (set_children n [] ?s1)"
    by (rule tags_kept_same) (rule tags_set_children)
  with a have c: "tags_kept s (set_children n [] ?s1)" by (rule tags_kept_trans)
  from a b c show ?thesis by (auto simp add: node_assign_def Let_def)
qed

lemma tags_set_innerHTML: "tags_kept s (set_innerHTML P n x s)"
  by (simp add: set_innerHTML_def tags_node_assign)

lemma tags_assign_prop: "assign_prop P key val n s = Inr s1 \<Longrightarrow> tags_kept s s1"
  by (auto simp: assign_prop_def tags_node_assign tags_kept_same field_update
      split: list.splits sum.splits)

lemma tags_resolve_props: "tags_kept s (snd (resolve_props P kvs n s))"
proof (induction kvs arbitrary: s)
  case Nil
  show ?case by (simp add: tags_kept_refl)
next
  case (Cons kv kvs)
  obtain key val where kv: "kv = (key, val)" by (cases kv)
  show ?case
  proof (cases "assign_prop P key val n s")
    case (Inl e)
    with kv show ?thesis by (simp add: tags_kept_refl)
  next
    case (Inr s1)
    have "tags_kept s s1" using Inr by (rule tags_assign_prop)
    moreover have "tags_kept s1 (snd (resolve_props P kvs n s1))" by (rule Cons.IH)
    ultimately show ?thesis using kv Inr by (simp add: tags_kept_trans)
  qed
qed

lemma tags_truncate_node: "map nodeName (truncate_node N n s) = map nodeName s"
  by (simp add: truncate_node_def field_update)

lemma tags_createElement: "tags_kept s (snd (createElement ty s))"
  by (simp add: createElement_def tags_kept_def)

lemma tags_resolve_node: "tags_kept s (snd (resolve_node ty node s))"
  by (simp add: resolve_node_def tags_createElement tags_kept_refl split: option.splits)

lemma tags_resolve_shallow: "tags_kept s (snd (snd (resolve_shallow P ty kvs node s)))"
proof -
  obtain n s1 where 1: "resolve_node ty node s = (n, s1)" by (cases "resolve_node ty node s")
  obtain e s2 where 2: "resolve_props P kvs n s1 = (e, s2)"
    by (cases "resolve_props P kvs n s1")
  have "tags_kept s s1" using tags_resolve_node [of s ty node] 1 by simp
  moreover have "tags_kept s1 s2" using tags_resolve_props [of s1 P kvs n] 2 by simp
  ultimately show ?thesis using 1 2 by (simp add: resolve_shallow_def tags_kept_trans)
qed

subsection \<open>The reconciler\<close>

text \<open>A string is resolved as the dict \<^verbatim>\<open>{'type': 'span', 'props': {}, 'children': vnode}\<close>.\<close>

lemma string_is_span_dict:
  "render_resolve P (VStr x) node s =
     render_resolve P (VDict (TStr ''span'') (PDict []) (CStr x)) node s"
  by (simp add: resolve_shallow_def split: prod.splits)

text \<open>No call of \<^verbatim>\<open>__render_resolve\<close> changes the tag of a node that exists.\<close>

lemma tags_render_resolve:
  "tags_kept s (snd (render_resolve P v node s))"
  "tags_kept s (snd (resolve_content P c n s))"
  "tags_kept s (snd (resolve_list P vs i n s))"
proof (induction P v node s and P c n s and P vs i n s
    rule: render_resolve_resolve_content_resolve_list.induct)
  case (1 P r node s)
  show ?case by (simp add: tags_kept_refl)
next
  case (2 P x node s)
  obtain e n s1 where r: "resolve_shallow P ''span'' [] node s = (e, n, s1)"
    by (cases "resolve_shallow P ''span'' [] node s")
  have "tags_kept s s1" using tags_resolve_shallow [of s P "''span''" "[]" node] r by simp
  moreover have "tags_kept s1 (set_innerHTML P n x s1)"
    by (rule tags_set_innerHTML)
  ultimately show ?case using r by (simp add: tags_kept_trans)
next
  case (3 P node s)
  show ?case by (simp add: tags_kept_refl)
next
  case (4 P ty props c node s)
  show ?case
  proof (cases ty)
    case TOther
    then show ?thesis by (simp add: tags_kept_refl)
  next
    case (TStr t)
    show ?thesis
    proof (cases props)
      case POther
      with TStr show ?thesis by (simp add: tags_kept_refl)
    next
      case PFalsy
      with TStr show ?thesis by (simp add: tags_kept_refl)
    next
      case (PDict kvs)
      obtain e n s1 where r: "resolve_shallow P t kvs node s = (e, n, s1)"
        by (cases "resolve_shallow P t kvs node s")
      have a: "tags_kept s s1" using tags_resolve_shallow [of s P t kvs node] r by simp
      show ?thesis
      proof (cases e)
        case (Some err)
        with TStr PDict r a show ?thesis by simp
      next
        case None
        have "tags_kept s1 (snd (resolve_content P c n s1))"
          using 4 [OF TStr PDict] r None by simp
        with a have "tags_kept s (snd (resolve_content P c n s1))" by (rule tags_kept_trans)
        with TStr PDict r None show ?thesis
          by (cases "resolve_content P c n s1") (auto split: option.splits)
      qed
    qed
  qed
next
  case (5 P n s)
  show ?case by (simp add: tags_kept_refl)
next
  case (6 P x n s)
  show ?case by (simp add: tags_set_innerHTML)
next
  case (7 P vs n s)
  have "tags_kept s (truncate_node (length vs) n s)"
    by (rule tags_kept_same) (rule tags_truncate_node)
  with 7 show ?case by (simp add: tags_kept_trans)
next
  case (8 P n s)
  show ?case by (simp add: tags_kept_refl)
next
  case (9 P i n s)
  show ?case by (simp add: tags_kept_refl)
next
  case (10 P v vs i n s)
  define subnode where "subnode = (if i < length (children (s ! n)) then Some (children (s ! n) ! i) else None)"
  obtain r s1 where rr: "render_resolve P v subnode s = (r, s1)"
    by (cases "render_resolve P v subnode s")
  have a: "tags_kept s s1" using 10(1) [OF refl, of subnode] rr by (simp add: subnode_def)
  show ?case
  proof (cases r)
    case (Inl e)
    with rr a show ?thesis by (simp add: Let_def subnode_def [symmetric])
  next
    case (Inr new)
    obtain e2 s2 where sp: "splice n subnode new s1 = (e2, s2)"
      by (cases "splice n subnode new s1")
    have b: "tags_kept s1 s2" using tags_splice [of n subnode new s1] sp by (simp add: tags_kept_same)
    show ?thesis
    proof (cases e2)
      case (Some e)
      with rr Inr sp a b show ?thesis
        by (simp add: Let_def subnode_def [symmetric]) (blast intro: tags_kept_trans)
    next
      case None
      have "tags_kept s2 (snd (resolve_list P vs (i + 1) n s2))"
        using 10(2) [OF refl subnode_def [symmetric, THEN sym] rr [symmetric] Inr
            sp [symmetric] None] .
      with a b have "tags_kept s (snd (resolve_list P vs (i + 1) n s2))"
        by (blast intro: tags_kept_trans)
      with rr Inr sp None show ?thesis by (simp add: Let_def subnode_def [symmetric])
    qed
  qed
qed

text \<open>Props without a key that changes the tree leave every child list as it is.\<close>

lemma children_kept_nth: "children_kept s s' \<Longrightarrow> r < length s \<Longrightarrow> children (s' ! r) = children (s ! r)"
proof -
  assume a: "children_kept s s'" and r: "r < length s"
  then have len: "length s \<le> length s'" and eq: "map children (take (length s) s') = map children s"
    by (simp_all add: children_kept_def)
  have "children (s' ! r) = map children (take (length s) s') ! r"
    using r len by simp
  also have "\<dots> = map children s ! r" by (simp only: eq)
  also have "\<dots> = children (s ! r)" using r by simp
  finally show ?thesis .
qed

lemma children_kept_refl: "children_kept s s"
  by (simp add: children_kept_def)

lemma children_kept_same: "map children s' = map children s \<Longrightarrow> children_kept s s'"
proof -
  assume a: "map children s' = map children s"
  then have "length s' = length s" by (metis length_map)
  with a show ?thesis by (simp add: children_kept_def)
qed

lemma children_kept_trans: "children_kept s s1 \<Longrightarrow> children_kept s1 s2 \<Longrightarrow> children_kept s s2"
proof -
  assume a: "children_kept s s1" and b: "children_kept s1 s2"
  then have len: "length s \<le> length s1" "length s1 \<le> length s2"
    by (simp_all add: children_kept_def)
  have "map children (take (length s) s2) = take (length s) (map children (take (length s1) s2))"
    using len by (simp add: take_map min_def)
  also have "\<dots> = take (length s) (map children s1)"
    using b by (simp add: children_kept_def)
  also have "\<dots> = map children (take (length s) s1)"
    by (simp add: take_map)
  also have "\<dots> = map children s"
    using a by (simp add: children_kept_def)
  finally show ?thesis using len by (simp add: children_kept_def)
qed

lemma children_resolve_node: "children_kept s (snd (resolve_node ty node s))"
  by (simp add: resolve_node_def createElement_def children_kept_def split: option.splits)

lemma rename_key_inert:
  "k \<notin> set tree_keys \<Longrightarrow>
   rename_key k \<noteq> ''innerHTML'' \<and> rename_key k \<noteq> ''textContent'' \<and> rename_key k \<noteq> ''innerText''"
  by (auto simp: tree_keys_def rename_key_def)

lemma children_assign_prop:
  assumes "inert_key key" and "assign_prop P key val n s = Inr s1"
  shows "map children s1 = map children s"
proof (cases "key_parts key")
  case Nil
  with assms(2) show ?thesis by (auto simp: assign_prop_def field_update)
next
  case (Cons k ks)
  show ?thesis
  proof (cases ks)
    case Nil
    with Cons assms(1) have "k \<notin> set tree_keys" by (simp add: inert_key_def)
    then have "rename_key k \<noteq> ''innerHTML''" "rename_key k \<noteq> ''textContent''"
      "rename_key k \<noteq> ''innerText''"
      using rename_key_inert [of k] by simp_all
    with Cons Nil assms(2) show ?thesis
      by (auto simp: assign_prop_def node_assign_def Let_def field_update)
  next
    case (Cons k' ks')
    with \<open>key_parts key = k # ks\<close> assms(2) show ?thesis
      by (auto simp: assign_prop_def field_update split: sum.splits)
  qed
qed

lemma children_resolve_props:
  "list_all (\<lambda>kv. inert_key (fst kv)) kvs \<Longrightarrow>
   map children (snd (resolve_props P kvs n s)) = map children s"
proof (induction kvs arbitrary: s)
  case Nil
  show ?case by simp
next
  case (Cons kv kvs)
  obtain key val where kv: "kv = (key, val)" by (cases kv)
  with Cons.prems have ik: "inert_key key" and rest: "list_all (\<lambda>kv. inert_key (fst kv)) kvs"
    by simp_all
  show ?case
  proof (cases "assign_prop P key val n s")
    case (Inl e)
    with kv show ?thesis by simp
  next
    case (Inr s1)
    have "map children s1 = map children s" using ik Inr by (rule children_assign_prop)
    moreover have "map children (snd (resolve_props P kvs n s1)) = map children s1"
      using rest by (rule Cons.IH)
    ultimately show ?thesis using kv Inr by simp
  qed
qed

lemma children_resolve_shallow:
  assumes "list_all (\<lambda>kv. inert_key (fst kv)) kvs"
  shows "children_kept s (snd (snd (resolve_shallow P ty kvs node s)))"
proof -
  obtain n s1 where 1: "resolve_node ty node s = (n, s1)" by (cases "resolve_node ty node s")
  obtain e s2 where 2: "resolve_props P kvs n s1 = (e, s2)"
    by (cases "resolve_props P kvs n s1")
  have "children_kept s s1" using children_resolve_node [of s ty node] 1 by simp
  moreover have "children_kept s1 s2"
    using children_resolve_props [OF assms, of P n s1] 2 by (simp add: children_kept_same)
  ultimately show ?thesis using 1 2 by (simp add: resolve_shallow_def children_kept_trans)
qed

lemma children_resolve_None:
  assumes "inert_props props"
  shows "children_kept s (snd (render_resolve P (VDict ty props CNone) node s))"
proof (cases ty)
  case TOther
  then show ?thesis by (simp add: children_kept_refl)
next
  case (TStr t)
  show ?thesis
  proof (cases props)
    case (PDict kvs)
    obtain e n s1 where r: "resolve_shallow P t kvs node s = (e, n, s1)"
      by (cases "resolve_shallow P t kvs node s")
    from assms PDict have "list_all (\<lambda>kv. inert_key (fst kv)) kvs"
      by (simp add: inert_props_def)
    then have "children_kept s s1" using children_resolve_shallow [of kvs s P t node] r by simp
    with TStr PDict r show ?thesis by (cases e) simp_all
  qed (simp_all add: TStr children_kept_refl)
qed

lemma lower_span: "lower ''span'' = ''span''"
  by (simp add: lower_def lower_char_def)

lemma upper_span: "upper ''span'' = ''SPAN''"
  by (simp add: upper_def upper_char_def)

text \<open>The nodes of parsed elements are new, and have the tags of the elements.\<close>

lemma alloc_roots:
  "length s \<le> fst (alloc h s) \<and> fst (alloc h s) < length (snd (alloc h s))
     \<and> nodeName (snd (alloc h s) ! fst (alloc h s)) = root_tag h"
  "(\<forall>c\<in>set (fst (alloc_list hs s)). length s \<le> c \<and> c < length (snd (alloc_list hs s)))
     \<and> map (\<lambda>c. nodeName (snd (alloc_list hs s) ! c)) (fst (alloc_list hs s)) = map root_tag hs"
proof (induction h s and hs s rule: alloc_alloc_list.induct)
  case (1 t a hs s)
  obtain rs s1 where r: "alloc_list hs s = (rs, s1)" by (cases "alloc_list hs s")
  have "length s \<le> length s1" using alloc_prefix(2) [of s hs] r by simp
  with r show ?case by simp
next
  case (2 s)
  show ?case by simp
next
  case (3 h hs s)
  obtain r s1 where a: "alloc h s = (r, s1)" by (cases "alloc h s")
  obtain rs s2 where b: "alloc_list hs s1 = (rs, s2)" by (cases "alloc_list hs s1")
  from 3(1) a have 1: "length s \<le> r" "r < length s1" "nodeName (s1 ! r) = root_tag h"
    by simp_all
  from 3(2) [OF a [symmetric]] b
  have 2: "\<forall>c\<in>set rs. length s1 \<le> c \<and> c < length s2"
    "map (\<lambda>c. nodeName (s2 ! c)) rs = map root_tag hs"
    by simp_all
  have p1: "length s \<le> length s1" using alloc_prefix(1) [of s h] a by simp
  have p2: "length s1 \<le> length s2" "take (length s1) s2 = s1"
    using alloc_prefix(2) [of s1 hs] b by simp_all
  have "s2 ! r = take (length s1) s2 ! r" using 1(2) by simp
  then have 3: "s2 ! r = s1 ! r" using p2(2) by simp
  have 4: "\<forall>c\<in>set rs. length s \<le> c \<and> c < length s2" using 2(1) p1 by auto
  from a b 1 2 3 4 p2 show ?case by simp
qed

lemma nth_alloc_list: "n < length s \<Longrightarrow> snd (alloc_list hs s) ! n = s ! n"
proof -
  assume n: "n < length s"
  have "take (length s) (snd (alloc_list hs s)) ! n = s ! n"
    using alloc_prefix(2) [of s hs] by simp
  with n show ?thesis by simp
qed

lemma length_alloc_list: "length s \<le> length (snd (alloc_list hs s))"
  using alloc_prefix(2) [of s hs] by simp

text \<open>What the setter of \<^verbatim>\<open>innerHTML\<close> does to the node: the property is kept, nothing
  else of the node changes but its children, which are the new nodes of the elements of
  the markup.\<close>

lemma set_innerHTML_node:
  assumes "n < length s"
  shows "nodeName (set_innerHTML P n x s ! n) = nodeName (s ! n)"
    and "attrs (set_innerHTML P n x s ! n) = AList.update ''innerHTML'' (JStr x) (attrs (s ! n))"
    and "map (\<lambda>c. nodeName (set_innerHTML P n x s ! c)) (children (set_innerHTML P n x s ! n))
           = map root_tag (P (nodeName (s ! n)) x)"
    and "\<forall>c\<in>set (children (set_innerHTML P n x s ! n)). length s \<le> c"
proof -
  define s1 where "s1 = s[n := (s ! n)\<lparr>attrs := AList.update ''innerHTML'' (JStr x) (attrs (s ! n))\<rparr>]"
  define hs where "hs = P (nodeName (s ! n)) x"
  obtain rs s2 where r: "alloc_list hs s1 = (rs, s2)" by (cases "alloc_list hs s1")
  have len1: "length s1 = length s" by (simp add: s1_def)
  have n1: "s1 ! n = (s ! n)\<lparr>attrs := AList.update ''innerHTML'' (JStr x) (attrs (s ! n))\<rparr>"
    using assms by (simp add: s1_def)
  have len2: "length s1 \<le> length s2" using length_alloc_list [of s1 hs] r by simp
  have n2: "s2 ! n = s1 ! n" using nth_alloc_list [of n s1 hs] r assms len1 by simp
  have fresh: "\<forall>c\<in>set rs. length s1 \<le> c \<and> c < length s2"
    and tags: "map (\<lambda>c. nodeName (s2 ! c)) rs = map root_tag hs"
    using alloc_roots(2) [where s = s1 and hs = hs] r by simp_all
  have eq: "set_innerHTML P n x s = s2[n := (s2 ! n)\<lparr>children := rs\<rparr>]"
    using r n1 by (simp add: set_innerHTML_def node_assign_def Let_def replace_content_def
        set_children_def s1_def [symmetric] hs_def [symmetric])
  have at: "set_innerHTML P n x s ! n = (s2 ! n)\<lparr>children := rs\<rparr>"
    using eq assms len1 len2 by simp
  have other: "set_innerHTML P n x s ! c = s2 ! c" if "c \<in> set rs" for c
    using eq fresh that assms len1 by auto
  show "nodeName (set_innerHTML P n x s ! n) = nodeName (s ! n)"
    using at n2 n1 by simp
  show "attrs (set_innerHTML P n x s ! n) = AList.update ''innerHTML'' (JStr x) (attrs (s ! n))"
    using at n2 n1 by simp
  have "map (\<lambda>c. nodeName (set_innerHTML P n x s ! c)) rs = map (\<lambda>c. nodeName (s2 ! c)) rs"
    using other by simp
  then show "map (\<lambda>c. nodeName (set_innerHTML P n x s ! c)) (children (set_innerHTML P n x s ! n))
           = map root_tag (P (nodeName (s ! n)) x)"
    using at tags by (simp add: hs_def)
  show "\<forall>c\<in>set (children (set_innerHTML P n x s ! n)). length s \<le> c"
    using at fresh len1 by simp
qed

lemma set_innerHTML_other:
  assumes "n < length s" and "m \<noteq> n"
  shows "set_innerHTML P m x s ! n = s ! n"
proof -
  define s1 where "s1 = s[m := (s ! m)\<lparr>attrs := AList.update ''innerHTML'' (JStr x) (attrs (s ! m))\<rparr>]"
  define hs where "hs = P (nodeName (s1 ! m)) x"
  obtain rs s2 where r: "alloc_list hs s1 = (rs, s2)" by (cases "alloc_list hs s1")
  have n1: "s1 ! n = s ! n" "n < length s1" using assms by (simp_all add: s1_def)
  have n2: "s2 ! n = s1 ! n" using nth_alloc_list [of n s1 hs] r n1 by simp
  have "set_innerHTML P m x s = s2[m := (s2 ! m)\<lparr>children := rs\<rparr>]"
    using r by (simp add: set_innerHTML_def node_assign_def Let_def replace_content_def
        set_children_def s1_def [symmetric] hs_def [symmetric])
  with assms n1 n2 show ?thesis by simp
qed

text \<open>
  C2, as amended. For every existing real node \<^verbatim>\<open>n\<close> whose tag is \<^verbatim>\<open>span\<close> up to case and
  every string, reconciling the string against \<^verbatim>\<open>n\<close> returns \<^verbatim>\<open>n\<close> with its content set to
  the string: \<^verbatim>\<open>innerHTML\<close> is the string, the children of \<^verbatim>\<open>n\<close> are new nodes, those of the
  elements of the markup, and the tag and every other property of \<^verbatim>\<open>n\<close> are as before.
  Against a node of any other tag the string is put into a new \<^verbatim>\<open>span\<close>, which is
  returned, and \<^verbatim>\<open>n\<close> is left as it is.
\<close>

theorem string_against_node:
  assumes "n < length s"
  shows "(lower (nodeName (s ! n)) = lower ''span'' \<longrightarrow>
           (let s' = snd (render_resolve P (VStr x) (Some n) s) in
            fst (render_resolve P (VStr x) (Some n) s) = Inr n
            \<and> nodeName (s' ! n) = nodeName (s ! n)
            \<and> attrs (s' ! n) = AList.update ''innerHTML'' (JStr x) (attrs (s ! n))
            \<and> map (\<lambda>c. nodeName (s' ! c)) (children (s' ! n)) = map root_tag (P (nodeName (s ! n)) x)
            \<and> (\<forall>c\<in>set (children (s' ! n)). length s \<le> c)))
       \<and> (lower (nodeName (s ! n)) \<noteq> lower ''span'' \<longrightarrow>
           (let s' = snd (render_resolve P (VStr x) (Some n) s) in
            fst (render_resolve P (VStr x) (Some n) s) = Inr (length s)
            \<and> s' ! n = s ! n
            \<and> nodeName (s' ! length s) = ''SPAN''
            \<and> attrs (s' ! length s) = [(''innerHTML'', JStr x)]
            \<and> map (\<lambda>c. nodeName (s' ! c)) (children (s' ! length s)) = map root_tag (P ''SPAN'' x)))"
proof (cases "lower (nodeName (s ! n)) = lower ''span''")
  case True
  then have "render_resolve P (VStr x) (Some n) s = (Inr n, set_innerHTML P n x s)"
    by (simp add: resolve_shallow_def resolve_node_def)
  with True set_innerHTML_node [OF assms, of P x] show ?thesis by (simp add: Let_def)
next
  case False
  define s0 where "s0 = s @ [\<lparr>nodeName = ''SPAN'', attrs = [], children = []\<rparr>]"
  have r: "render_resolve P (VStr x) (Some n) s = (Inr (length s), set_innerHTML P (length s) x s0)"
    using False by (simp add: resolve_shallow_def resolve_node_def createElement_def upper_span s0_def)
  have m: "length s < length s0" by (simp add: s0_def)
  have n0: "n < length s0" "length s \<noteq> n" "s0 ! n = s ! n"
    using assms by (simp_all add: s0_def nth_append)
  have new: "nodeName (s0 ! length s) = ''SPAN''" "attrs (s0 ! length s) = []"
    by (simp_all add: s0_def)
  from False r set_innerHTML_node(1-3) [OF m, of P x] set_innerHTML_other [OF n0(1) n0(2), of P x]
    n0(3) new
  show ?thesis by (simp add: Let_def)
qed

theorem string_against_node_witness:
  "render_resolve parse0 (VStr ''hi'') (Some 1) dom0 =
     (Inr 1, [\<lparr>nodeName = ''DIV'', attrs = [(''style'', JObj [])], children = [1, 2]\<rparr>,
              \<lparr>nodeName = ''SPAN'', attrs = [(''className'', JStr ''note''), (''innerHTML'', JStr ''hi'')],
                children = []\<rparr>,
              \<lparr>nodeName = ''P'', attrs = [], children = []\<rparr>,
              \<lparr>nodeName = ''B'', attrs = [], children = []\<rparr>])
   \<and> render_resolve parse0 (VStr ''<i></i>'') (Some 1) dom0 =
     (Inr 1, [\<lparr>nodeName = ''DIV'', attrs = [(''style'', JObj [])], children = [1, 2]\<rparr>,
              \<lparr>nodeName = ''SPAN'', attrs = [(''className'', JStr ''note''), (''innerHTML'', JStr ''<i></i>'')],
                children = [4]\<rparr>,
              \<lparr>nodeName = ''P'', attrs = [], children = []\<rparr>,
              \<lparr>nodeName = ''B'', attrs = [], children = []\<rparr>,
              \<lparr>nodeName = ''I'', attrs = [], children = []\<rparr>])
   \<and> render_resolve parse0 (VStr ''hi'') (Some 2) dom0 =
     (Inr 4, dom0 @ [\<lparr>nodeName = ''SPAN'', attrs = [(''innerHTML'', JStr ''hi'')], children = []\<rparr>])"
  using string_against_node [of 1 dom0 parse0 "''hi''"] string_against_node [of 2 dom0 parse0 "''hi''"]
  by (simp add: dom0_def parse0_def lower_def lower_char_def upper_def upper_char_def
      resolve_shallow_def resolve_node_def createElement_def set_innerHTML_def node_assign_def
      replace_content_def set_children_def Let_def)

text \<open>The claim as it was stated, for any existing node, fails on a \<^verbatim>\<open>div\<close>: another node
  is returned, and the \<^verbatim>\<open>div\<close> has no content set and keeps its children.\<close>

theorem string_against_div_counterexample:
  "nodeName (dom0 ! 0) = ''DIV''
   \<and> fst (render_resolve parse0 (VStr ''hi'') (Some 0) dom0) = Inr 4
   \<and> map_of (attrs (snd (render_resolve parse0 (VStr ''hi'') (Some 0) dom0) ! 0)) ''innerHTML'' = None
   \<and> children (snd (render_resolve parse0 (VStr ''hi'') (Some 0) dom0) ! 0) = [1, 2]"
  by (simp add: dom0_def parse0_def lower_def lower_char_def upper_def upper_char_def
      resolve_shallow_def resolve_node_def createElement_def set_innerHTML_def node_assign_def
      replace_content_def set_children_def Let_def)

text \<open>
  C6, as amended. For every virtual node whose \<^verbatim>\<open>children\<close> is \<^verbatim>\<open>None\<close> and whose props
  have no key that ends in a property whose setter changes the tree (\<^verbatim>\<open>innerHTML\<close>,
  \<^verbatim>\<open>textContent\<close> and the like), whatever its type, reconciling it against an existing
  real node leaves the child list of that node as it was, and with it the tags of the
  children, also when a prop fails.
\<close>

theorem children_None_untouched:
  assumes "n < length s" and "\<forall>c\<in>set (children (s ! n)). c < length s"
    and "inert_props props"
  shows "children (snd (render_resolve P (VDict ty props CNone) (Some n) s) ! n) = children (s ! n)
       \<and> map (\<lambda>c. nodeName (snd (render_resolve P (VDict ty props CNone) (Some n) s) ! c))
             (children (s ! n))
         = map (\<lambda>c. nodeName (s ! c)) (children (s ! n))"
proof -
  let ?s' = "snd (render_resolve P (VDict ty props CNone) (Some n) s)"
  have "children_kept s ?s'" using assms(3) by (rule children_resolve_None)
  then have 1: "children (?s' ! n) = children (s ! n)"
    using assms(1) by (rule children_kept_nth)
  have "tags_kept s ?s'" by (rule tags_render_resolve)
  then have "nodeName (?s' ! c) = nodeName (s ! c)" if "c \<in> set (children (s ! n))" for c
    using assms(2) that by (simp add: tags_kept_nth)
  then have 2: "map (\<lambda>c. nodeName (?s' ! c)) (children (s ! n)) = map (\<lambda>c. nodeName (s ! c)) (children (s ! n))"
    by simp
  from 1 2 show ?thesis by simp
qed

theorem children_None_untouched_witness:
  "inert_props (PDict [(''css_class'', JStr ''big''), (''style__color'', JStr ''red'')])
   \<and> render_resolve parse0
        (VDict (TStr ''div'') (PDict [(''css_class'', JStr ''big''), (''style__color'', JStr ''red'')]) CNone)
        (Some 0) dom0
     = (Inr 0, dom0[0 := \<lparr>nodeName = ''DIV'',
                           attrs = [(''style'', JObj [(''color'', JStr ''red'')]), (''className'', JStr ''big'')],
                           children = [1, 2]\<rparr>])"
  using children_None_untouched [of 0 dom0
      "PDict [(''css_class'', JStr ''big''), (''style__color'', JStr ''red'')]" parse0 "TStr ''div''"]
  by (simp add: dom0_def resolve_shallow_def resolve_node_def lower_def lower_char_def
      key_parts_def rename_key_def assign_prop_def node_assign_def inert_props_def inert_key_def
      tree_keys_def)

text \<open>The claim as it was stated, for every props, fails on the prop \<^verbatim>\<open>innerHTML\<close>: the
  \<^verbatim>\<open>div\<close> loses its two children although \<^verbatim>\<open>children\<close> is \<^verbatim>\<open>None\<close>.\<close>

theorem children_None_innerHTML_counterexample:
  "children (dom0 ! 0) = [1, 2]
   \<and> render_resolve parse0 (VDict (TStr ''div'') (PDict [(''innerHTML'', JStr [])]) CNone) (Some 0) dom0
     = (Inr 0, dom0[0 := \<lparr>nodeName = ''DIV'',
                           attrs = [(''style'', JObj []), (''innerHTML'', JStr [])],
                           children = []\<rparr>])"
  by (simp add: dom0_def parse0_def resolve_shallow_def resolve_node_def lower_def lower_char_def
      key_parts_def rename_key_def assign_prop_def node_assign_def replace_content_def
      set_children_def Let_def)

text \<open>
  C9, as amended. \<^verbatim>\<open>create_element(type, props)\<close> with no child argument gives a dict
  whose \<^verbatim>\<open>children\<close> is \<^verbatim>\<open>None\<close>, not an empty list. Reconciling that dict, against a node
  or none, leaves the child list of every node of the document as it was, when the props
  have no key that ends in a property whose setter changes the tree.
\<close>

theorem create_element_no_children:
  "create_element ty props [] = VDict ty (if props = PFalsy then PDict [] else props) CNone
   \<and> (inert_props props \<longrightarrow>
        (\<forall>r < length s.
           children (snd (render_resolve P (create_element ty props []) node s) ! r) = children (s ! r)))"
proof -
  define p where "p = (if props = PFalsy then PDict [] else props)"
  have 1: "create_element ty props [] = VDict ty p CNone"
    by (cases props) (simp_all add: create_element_def p_def)
  have 3: "inert_props p" if "inert_props props"
    using that by (cases props) (simp_all add: p_def inert_props_def)
  have "children_kept s (snd (render_resolve P (create_element ty props []) node s))"
    if "inert_props props"
    unfolding 1 using 3 [OF that] by (rule children_resolve_None)
  then have "inert_props props \<longrightarrow>
        (\<forall>r < length s.
           children (snd (render_resolve P (create_element ty props []) node s) ! r) = children (s ! r))"
    by (simp add: children_kept_nth)
  with 1 show ?thesis by (simp add: p_def)
qed

theorem create_element_no_children_witness:
  "create_element (TStr ''div'') PFalsy [] = VDict (TStr ''div'') (PDict []) CNone
   \<and> create_element (TStr ''div'') (PDict [(''css_class'', JStr ''big'')]) []
       = VDict (TStr ''div'') (PDict [(''css_class'', JStr ''big'')]) CNone
   \<and> inert_props (PDict [(''css_class'', JStr ''big'')])
   \<and> map children (snd (render_resolve parse0
        (create_element (TStr ''div'') (PDict [(''css_class'', JStr ''big'')]) []) (Some 0) dom0))
       = [[1, 2], [3], [], []]"
  using create_element_no_children [of "TStr ''div''" "PDict [(''css_class'', JStr ''big'')]" dom0 parse0 "Some 0"]
  by (simp add: dom0_def create_element_def resolve_shallow_def resolve_node_def lower_def
      lower_char_def key_parts_def rename_key_def assign_prop_def node_assign_def inert_props_def
      inert_key_def tree_keys_def)

text \<open>The claim as it was stated, that reconciling the dict never removes existing
  children, fails for the props \<^verbatim>\<open>{'innerHTML': ''}\<close>.\<close>

theorem create_element_innerHTML_counterexample:
  "create_element (TStr ''div'') (PDict [(''innerHTML'', JStr [])]) []
     = VDict (TStr ''div'') (PDict [(''innerHTML'', JStr [])]) CNone
   \<and> children (dom0 ! 0) = [1, 2]
   \<and> children (snd (render_resolve parse0
        (create_element (TStr ''div'') (PDict [(''innerHTML'', JStr [])]) []) (Some 0) dom0) ! 0) = []"
  by (simp add: dom0_def parse0_def create_element_def resolve_shallow_def resolve_node_def
      lower_def lower_char_def key_parts_def rename_key_def assign_prop_def node_assign_def
      replace_content_def set_children_def Let_def)

text \<open>The truncating loop keeps the first \<^verbatim>\<open>N\<close> children.\<close>

lemma remove1_last: "distinct cs \<Longrightarrow> cs \<noteq> [] \<Longrightarrow> remove1 (last cs) cs = butlast cs"
proof -
  assume d: "distinct cs" and ne: "cs \<noteq> []"
  then have cs: "cs = butlast cs @ [last cs]" by simp
  with d have "last cs \<notin> set (butlast cs)"
    by (metis distinct_append distinct.simps(2) disjoint_iff list.set_intros(1) distinct_butlast not_distinct_conv_prefix append.right_neutral)
  then have "remove1 (last cs) (butlast cs @ [last cs]) = butlast cs"
    by (simp add: remove1_append)
  with cs show ?thesis by simp
qed

lemma truncate_children_take: "distinct cs \<Longrightarrow> truncate_children N cs = take N cs"
proof (induction N cs rule: truncate_children.induct)
  case (1 N cs)
  show ?case
  proof (cases "N < length cs")
    case True
    then have ne: "cs \<noteq> []" by auto
    have "truncate_children N cs = truncate_children N (remove1 (last cs) cs)"
      using True by (simp add: truncate_children.simps [of N cs])
    also have "\<dots> = take N (remove1 (last cs) cs)"
      using 1 True by simp
    also have "\<dots> = take N (butlast cs)"
      using 1(2) ne by (simp add: remove1_last)
    also have "\<dots> = take N cs"
      using True by (simp add: butlast_conv_take)
    finally show ?thesis .
  next
    case False
    then show ?thesis by (simp add: truncate_children.simps [of N cs])
  qed
qed

text \<open>
  C5, as amended. For every virtual node with a list of \<^verbatim>\<open>N\<close> children, reconciling it
  against an existing real node whose tag is the type of the virtual node up to case and
  which has more than \<^verbatim>\<open>N\<close> children first (after the props, none of which fails) cuts the
  child list of the node down to its first \<^verbatim>\<open>N\<close> children, and then reconciles index by
  index from that state.
\<close>

text \<open>
  C5, as amended. For every virtual node with a list of \<^verbatim>\<open>N\<close> children, reconciling it
  against an existing real node whose tag is the type of the virtual node up to case and
  which has more than \<^verbatim>\<open>N\<close> children first cuts the child list of the node down to its
  first \<^verbatim>\<open>N\<close> children, and then reconciles index by index from that state. That is so
  when the props are assigned without a failure and none of their keys ends in a property
  whose setter changes the tree: then the node has its children still when the props are
  done.
\<close>

theorem truncate_before_resolve:
  assumes "n < length s"
    and "lower (nodeName (s ! n)) = lower t"
    and "list_all (\<lambda>kv. inert_key (fst kv)) kvs"
    and "resolve_props P kvs n s = (None, s1)"
    and "distinct (children (s ! n))"
    and "length vs < length (children (s ! n))"
  shows "children (s1 ! n) = children (s ! n)
       \<and> render_resolve P (VDict (TStr t) (PDict kvs) (CList vs)) (Some n) s =
           (case resolve_list P vs 0 n
                   (s1[n := (s1 ! n)\<lparr>children := take (length vs) (children (s ! n))\<rparr>]) of
              (Some e, s2) \<Rightarrow> (Inl e, s2)
            | (None, s2) \<Rightarrow> (Inr n, s2))
       \<and> length (take (length vs) (children (s ! n))) = length vs"
proof -
  have "map children s1 = map children s"
    using children_resolve_props [OF assms(3), of P n s] assms(4) by simp
  then have "map children s1 ! n = map children s ! n" by simp
  moreover have "length s1 = length s" using \<open>map children s1 = map children s\<close> by (metis length_map)
  ultimately have c: "children (s1 ! n) = children (s ! n)" using assms(1) by simp
  with assms show ?thesis
    by (simp add: resolve_shallow_def resolve_node_def truncate_node_def truncate_children_take)
qed

theorem truncate_before_resolve_witness:
  "render_resolve parse0
       (VDict (TStr ''div'') (PDict [(''style__color'', JStr ''red'')]) (CList [VStr ''a'']))
       (Some 0) dom0 =
     (Inr 0, [\<lparr>nodeName = ''DIV'', attrs = [(''style'', JObj [(''color'', JStr ''red'')])], children = [1]\<rparr>,
              \<lparr>nodeName = ''SPAN'', attrs = [(''className'', JStr ''note''), (''innerHTML'', JStr ''a'')],
                children = []\<rparr>,
              \<lparr>nodeName = ''P'', attrs = [], children = []\<rparr>,
              \<lparr>nodeName = ''B'', attrs = [], children = []\<rparr>])"
  using truncate_before_resolve [of 0 dom0 "''div''" "[(''style__color'', JStr ''red'')]" parse0
      "dom0[0 := \<lparr>nodeName = ''DIV'', attrs = [(''style'', JObj [(''color'', JStr ''red'')])], children = [1, 2]\<rparr>]"
      "[VStr ''a'']"]
  by (simp add: dom0_def parse0_def lower_def lower_char_def key_parts_def rename_key_def
      assign_prop_def inert_key_def tree_keys_def resolve_shallow_def resolve_node_def
      set_innerHTML_def node_assign_def replace_content_def set_children_def splice_def Let_def)

text \<open>When a prop sets the content, the loop finds the children that the prop has left:
  with \<^verbatim>\<open>{'innerHTML': ''}\<close> the \<^verbatim>\<open>div\<close> is empty when the loop starts, nothing is cut, and
  the child of the virtual node becomes a new \<^verbatim>\<open>span\<close>.\<close>

lemma content_prop_before_list:
  "render_resolve parse0
       (VDict (TStr ''div'') (PDict [(''innerHTML'', JStr [])]) (CList [VStr ''a'']))
       (Some 0) dom0 =
     (Inr 0, [\<lparr>nodeName = ''DIV'', attrs = [(''style'', JObj []), (''innerHTML'', JStr [])],
                children = [4]\<rparr>,
              \<lparr>nodeName = ''SPAN'', attrs = [(''className'', JStr ''note'')], children = [3]\<rparr>,
              \<lparr>nodeName = ''P'', attrs = [], children = []\<rparr>,
              \<lparr>nodeName = ''B'', attrs = [], children = []\<rparr>,
              \<lparr>nodeName = ''SPAN'', attrs = [(''innerHTML'', JStr ''a'')], children = []\<rparr>])"
  by (simp add: dom0_def parse0_def lower_def lower_char_def upper_def upper_char_def
      key_parts_def rename_key_def assign_prop_def resolve_shallow_def resolve_node_def
      createElement_def set_innerHTML_def node_assign_def replace_content_def set_children_def
      truncate_node_def truncate_children.simps splice_def appendChild_def detach_def Let_def)

text \<open>The claim as it was stated, for every virtual node, fails where the tags differ: the
  \<^verbatim>\<open>div\<close> with two children, reconciled against a \<^verbatim>\<open>span\<close> with no child, keeps both.\<close>

theorem other_tag_not_truncated:
  "nodeName (dom0 ! 0) = ''DIV'' \<and> length (children (dom0 ! 0)) = 2
   \<and> fst (render_resolve parse0 (VDict (TStr ''span'') (PDict []) (CList [])) (Some 0) dom0) = Inr 4
   \<and> children (snd (render_resolve parse0 (VDict (TStr ''span'') (PDict []) (CList [])) (Some 0) dom0) ! 0) = [1, 2]"
  by (simp add: dom0_def lower_def lower_char_def resolve_shallow_def resolve_node_def
      createElement_def truncate_node_def truncate_children.simps)

subsection \<open>The render reaction\<close>

text \<open>
  C4. When \<^verbatim>\<open>_render_dom()\<close> returns a dict whose type differs, up to case, from the tag of
  the outer node, \<^verbatim>\<open>__render\<close> raises \<^verbatim>\<open>ValueError\<close> and the document is as it was. And
  whatever \<^verbatim>\<open>_render_dom()\<close> returns, the outer node has the same tag after \<^verbatim>\<open>__render\<close>
  as before.
\<close>

theorem root_type_fixed:
  assumes "outernode < length s"
  shows "(lower t \<noteq> lower (nodeName (s ! outernode)) \<longrightarrow>
            render P outernode (RVal (VDict (TStr t) props c)) s = (Some ValueError, s))
       \<and> nodeName (snd (render P outernode r s) ! outernode) = nodeName (s ! outernode)"
proof -
  have root: "tags_kept s (snd (render_root P outernode v s))" for v
    using tags_render_resolve(1) [of s P v "Some outernode"]
    by (cases "render_resolve P v (Some outernode) s") (auto simp: render_root_def split: sum.splits)
  have "tags_kept s (snd (render P outernode r s))"
  proof (cases r)
    case RNone
    then show ?thesis by (simp add: render_def tags_kept_refl)
  next
    case (RList vs)
    then show ?thesis by (simp add: render_def root)
  next
    case (RVal v)
    then show ?thesis
      by (cases v) (auto simp: render_def root tags_kept_refl split: vtype.splits)
  qed
  then have "nodeName (snd (render P outernode r s) ! outernode) = nodeName (s ! outernode)"
    using assms by (rule tags_kept_nth)
  then show ?thesis by (simp add: render_def)
qed

theorem root_type_fixed_witness:
  "render parse0 0 (RVal (VDict (TStr ''span'') (PDict []) (CList []))) dom0 = (Some ValueError, dom0)
   \<and> nodeName (snd (render parse0 0 (RList []) dom0) ! 0) = ''DIV''
   \<and> children (snd (render parse0 0 (RList []) dom0) ! 0) = []"
  using root_type_fixed [of 0 dom0 "''span''" parse0 "PDict []" "CList []" "RList []"]
  by (simp add: dom0_def lower_def lower_char_def render_def render_root_def resolve_shallow_def
      resolve_node_def truncate_node_def truncate_children.simps)

subsection \<open>Parenting\<close>

lemma remove_self_removeAll: "remove_self x xs = removeAll x xs"
proof (induction x xs rule: remove_self.induct)
  case (1 x xs)
  show ?case
  proof (cases "x \<in> set xs")
    case True
    then have "remove_self x xs = removeAll x (remove1 x xs)"
      using 1 by (simp add: remove_self.simps [of x xs])
    also have "\<dots> = removeAll x xs" by (induction xs) auto
    finally show ?thesis .
  next
    case False then show ?thesis by (simp add: remove_self.simps [of x xs])
  qed
qed

text \<open>
  C3. The claim: \<^verbatim>\<open>w.set_parent(p, pos)\<close> with a \<^verbatim>\<open>pos\<close> that is not a valid number
  appends \<^verbatim>\<open>w\<close> to the children of \<^verbatim>\<open>p\<close>, as \<^verbatim>\<open>pos=None\<close> does. The code does not:
  in the last branch (\<^verbatim>\<open># maybe pos is nan for some reason\<close>) it appends \<^verbatim>\<open>None\<close>, so
  the new child list of \<^verbatim>\<open>p\<close> ends in \<^verbatim>\<open>None\<close> and does not hold \<^verbatim>\<open>w\<close> at all.
\<close>

theorem set_parent_nan_appends_None:
  "\<exists>h'. set_parent w (AWidget p) PNaN h = Inr h' \<and>
        w_children (h' p) = removeAll (Some w) (w_children (h p)) @ [None]"
  by (auto simp: set_parent_def Let_def remove_self_removeAll split: option.splits)

text \<open>With \<^verbatim>\<open>pos=None\<close> the widget itself is appended.\<close>

lemma set_parent_None_appends_self:
  assumes "parent (h w) \<noteq> Some p"
  shows "\<exists>h'. set_parent w (AWidget p) PNone h = Inr h' \<and>
           w_children (h' p) = removeAll (Some w) (w_children (h p)) @ [Some w]"
  using assms by (auto simp: set_parent_def Let_def remove_self_removeAll split: option.splits)

lemma set_parent_orphan:
  assumes "parent (h w) = Some b"
  shows "\<exists>h2. set_parent w NoParent PNone h = Inr h2 \<and> parent (h2 w) = None
           \<and> w_children (h2 b) = removeAll (Some w) (w_children (h b))
           \<and> (\<forall>c. c \<noteq> b \<longrightarrow> w_children (h2 c) = w_children (h c))"
  using assms by (simp add: set_parent_def Let_def remove_self_removeAll)

lemma set_parent_attach:
  assumes "parent (h w) \<noteq> Some b"
  shows "\<exists>h1. set_parent w (AWidget b) PNone h = Inr h1 \<and> parent (h1 w) = Some b
           \<and> (\<forall>a. parent (h w) = Some a \<longrightarrow> Some w \<notin> set (w_children (h1 a)))"
proof (cases "parent (h w)")
  case None
  then show ?thesis by (simp add: set_parent_def Let_def remove_self_removeAll)
next
  case (Some a)
  with assms have "a \<noteq> b" by simp
  with Some show ?thesis by (simp add: set_parent_def Let_def remove_self_removeAll)
qed

text \<open>
  C7. For every widget \<^verbatim>\<open>w\<close>, whatever its current parent \<^verbatim>\<open>A\<close> (a widget or none), and
  every widget \<^verbatim>\<open>B\<close>: \<^verbatim>\<open>w.set_parent(B)\<close> followed by \<^verbatim>\<open>w.set_parent(None)\<close> both return,
  and afterwards neither the children of \<^verbatim>\<open>B\<close> nor those of \<^verbatim>\<open>A\<close> hold \<^verbatim>\<open>w\<close>, and the
  parent of \<^verbatim>\<open>w\<close> is none.
\<close>

theorem set_parent_then_orphan:
  "\<exists>h1 h2. set_parent w (AWidget b) PNone h = Inr h1 \<and> set_parent w NoParent PNone h1 = Inr h2
     \<and> Some w \<notin> set (w_children (h2 b))
     \<and> (\<forall>a. parent (h w) = Some a \<longrightarrow> Some w \<notin> set (w_children (h2 a)))
     \<and> parent (h2 w) = None"
proof (cases "parent (h w) = Some b")
  case True
  then have 1: "set_parent w (AWidget b) PNone h = Inr h"
    by (simp add: set_parent_def Let_def)
  from set_parent_orphan [of h w b] True obtain h2 where
    2: "set_parent w NoParent PNone h = Inr h2" "parent (h2 w) = None"
       "w_children (h2 b) = removeAll (Some w) (w_children (h b))"
    by blast
  from True 1 2 show ?thesis by auto
next
  case False
  from set_parent_attach [of h w b] False obtain h1 where
    1: "set_parent w (AWidget b) PNone h = Inr h1" "parent (h1 w) = Some b"
       "\<forall>a. parent (h w) = Some a \<longrightarrow> Some w \<notin> set (w_children (h1 a))"
    by blast
  from set_parent_orphan [of h1 w b] 1(2) obtain h2 where
    2: "set_parent w NoParent PNone h1 = Inr h2" "parent (h2 w) = None"
       "w_children (h2 b) = removeAll (Some w) (w_children (h1 b))"
       "\<forall>c. c \<noteq> b \<longrightarrow> w_children (h2 c) = w_children (h1 c)"
    by blast
  have "Some w \<notin> set (w_children (h2 a))" if "parent (h w) = Some a" for a
  proof (cases "a = b")
    case True
    with 2(3) show ?thesis by simp
  next
    case False
    with 2(4) 1(3) that show ?thesis by simp
  qed
  with 1 2 show ?thesis by auto
qed

theorem set_parent_then_orphan_witness:
  "\<exists>h1 h2. set_parent 0 (AWidget 2) PNone hier0 = Inr h1 \<and> set_parent 0 NoParent PNone h1 = Inr h2
     \<and> Some 0 \<notin> set (w_children (h2 2))
     \<and> Some 0 \<notin> set (w_children (h2 1))
     \<and> parent (h2 0) = None \<and> parent (hier0 0) = Some 1"
  using set_parent_then_orphan [of 0 2 hier0]
  by (simp add: hier0_def)

subsection \<open>Mouse events\<close>

text \<open>
  C8. For every raw wheel event whose \<^verbatim>\<open>button\<close> is one of 0 to 4 and whose \<^verbatim>\<open>deltaMode\<close>
  is 0, 1 or 2, \<^verbatim>\<open>mouse_wheel\<close> returns an event with \<^verbatim>\<open>button\<close> 0, \<^verbatim>\<open>hscroll\<close> equal
  to \<^verbatim>\<open>deltaX\<close> and \<^verbatim>\<open>vscroll\<close> equal to \<^verbatim>\<open>deltaY\<close>, each times the entry of the table
  \<^verbatim>\<open>[1, 16, 600]\<close> at \<^verbatim>\<open>deltaMode\<close>. At \<^verbatim>\<open>deltaMode=1\<close> and \<^verbatim>\<open>deltaY=2\<close> that is a
  \<^verbatim>\<open>vscroll\<close> of 32.
\<close>

theorem mouse_wheel_scroll:
  assumes "e_button e \<in> {0, 1, 2, 3, 4}" and "deltaMode e \<in> {0, 1, 2}"
  shows "\<exists>ev. mouse_wheel v e = Inr ev \<and> button ev = 0
           \<and> hscroll ev = Some (deltaX e * [1, 16, 600] ! nat (deltaMode e))
           \<and> vscroll ev = Some (deltaY e * [1, 16, 600] ! nat (deltaMode e))"
  using assms
  by (auto simp: mouse_wheel_def create_mouse_event_def wheel_factor_def button_of_def Let_def)

theorem mouse_wheel_scroll_witness:
  "\<exists>ev. mouse_wheel env0 event0 = Inr ev \<and> button ev = 0 \<and> hscroll ev = Some 0 \<and> vscroll ev = Some 32"
  using mouse_wheel_scroll [of event0 env0]
  by (simp add: event0_def)

subsection \<open>Mouse capturing\<close>

text \<open>
  C1, as amended. A press on the inner anchor followed by a move that the document
  delivers emits a \<^verbatim>\<open>mouse_move\<close> event, with \<^verbatim>\<open>button\<close> 0, when \<^verbatim>\<open>capture_mouse\<close> is 1
  just as when it is 2: the press sets \<^verbatim>\<open>_capture_flag\<close> to 2 for every \<^verbatim>\<open>capture_mouse\<close>
  other than 0, and \<^verbatim>\<open>mmove_outside\<close> looks at the flag only. With \<^verbatim>\<open>capture_mouse\<close> 0
  the same two events emit no \<^verbatim>\<open>mouse_move\<close>. (The raw move event is one that
  \<^verbatim>\<open>_create_mouse_event\<close> accepts.)
\<close>

theorem press_then_outside_move_emits:
  assumes "create_mouse_event v (effective_event v e2) = Inr ev"
  shows "(capture_mouse st = 1 \<or> capture_mouse st = 2 \<longrightarrow>
           moves (snd (press_then_outside_move v e1 e2 st)) = moves st @ [ev\<lparr>button := 0\<rparr>])
       \<and> (capture_mouse st = 0 \<longrightarrow>
           moves (snd (press_then_outside_move v e1 e2 st)) = moves st)"
  using assms
  by (auto simp: press_then_outside_move_def document_mousemove_def node_mousedown_def
      mmove_outside_def mouse_move_def mouse_down_def moves_def emit_def mdown_def
      split: sum.splits)

theorem press_then_outside_move_emits_witness:
  "moves (snd (press_then_outside_move env0 event0 event0 (idle 1))) =
     [\<lparr>pos = (20, 30), page_pos = (30, 140), button = 0, buttons = [1], modifiers = [''Shift''],
       hscroll = None, vscroll = None\<rparr>]
   \<and> moves (snd (press_then_outside_move env0 event0 event0 (idle 2))) =
     [\<lparr>pos = (20, 30), page_pos = (30, 140), button = 0, buttons = [1], modifiers = [''Shift''],
       hscroll = None, vscroll = None\<rparr>]
   \<and> moves (snd (press_then_outside_move env0 event0 event0 (idle 0))) = []"
proof -
  have ev: "create_mouse_event env0 (effective_event env0 event0) =
      Inr \<lparr>pos = (20, 30), page_pos = (30, 140), button = 1, buttons = [1], modifiers = [''Shift''],
       hscroll = None, vscroll = None\<rparr>"
    by (simp add: create_mouse_event_def effective_event_def env0_def event0_def button_of_def
        buttons_mask_def to_string2.simps Let_def upt_rec)
  show ?thesis
    using press_then_outside_move_emits [OF ev, of "idle 1" event0]
      press_then_outside_move_emits [OF ev, of "idle 2" event0]
      press_then_outside_move_emits [OF ev, of "idle 0" event0]
    by (simp add: idle_def moves_def)
qed

text \<open>The claim as it was stated, no \<^verbatim>\<open>mouse_move\<close> with \<^verbatim>\<open>capture_mouse=1\<close>, fails on a
  widget at rest.\<close>

theorem capture1_outside_move_emitted:
  "capture_mouse (idle 1) = 1 \<and> moves (snd (press_then_outside_move env0 event0 event0 (idle 1))) \<noteq> []"
  by (simp add: press_then_outside_move_def document_mousemove_def node_mousedown_def
      mmove_outside_def mouse_move_def mouse_down_def moves_def emit_def mdown_def idle_def
      create_mouse_event_def effective_event_def env0_def event0_def button_of_def
        buttons_mask_def to_string2.simps Let_def upt_rec)

end
